theory Spec2Isabelle
  imports Complex_Main "HOL-Library.Sublist"
begin

section \<open>Values shared by the services\<close>

text \<open>
  Identifiers are strings, a connection is the identity of a socket object, and the
  content of a file or chunk is the list of its bytes, which the services only copy,
  count and digest.
\<close>

type_synonym fileId = string
type_synonym userId = string
type_synonym conn = nat
type_synonym bytes = "nat list"

text \<open>
  A JavaScript number as far as the services need it: the progress fractions are
  quotients whose divisor can be zero, so \<open>NaN\<close> and the infinities are values.
\<close>

datatype jsnum = Num real | NaN | Infinity | NegInfinity

definition js_div :: "real \<Rightarrow> real \<Rightarrow> jsnum" where
  "js_div a b =
     (if b = 0 then (if a = 0 then NaN else if 0 < a then Infinity else NegInfinity)
      else Num (a / b))"

text \<open>\<open>Math.max(0, p)\<close> and \<open>Math.min(1, q)\<close>.\<close>

fun max0 :: "jsnum \<Rightarrow> jsnum" where
  "max0 (Num x) = Num (max 0 x)"
| "max0 NaN = NaN"
| "max0 Infinity = Infinity"
| "max0 NegInfinity = Num 0"

fun min1 :: "jsnum \<Rightarrow> jsnum" where
  "min1 (Num x) = Num (min 1 x)"
| "min1 NaN = NaN"
| "min1 Infinity = Num 1"
| "min1 NegInfinity = NegInfinity"

text \<open>
  A JavaScript \<open>Set\<close> keeps insertion order and holds no element twice; it is a list
  here. \<open>set_add\<close> is \<open>Set.prototype.add\<close>, \<open>set_delete\<close> is
  \<open>Set.prototype.delete\<close>.
\<close>

definition set_add :: "'a \<Rightarrow> 'a list \<Rightarrow> 'a list" where
  "set_add x xs = (if x \<in> set xs then xs else xs @ [x])"

definition set_delete :: "'a \<Rightarrow> 'a list \<Rightarrow> 'a list" where
  "set_delete x xs = removeAll x xs"

text \<open>A JavaScript \<open>Map\<close> with \<open>set\<close> on an association list.\<close>

fun map_set :: "'k \<Rightarrow> 'v \<Rightarrow> ('k \<times> 'v) list \<Rightarrow> ('k \<times> 'v) list" where
  "map_set k v [] = [(k, v)]"
| "map_set k v ((k', v') # kvs) =
     (if k = k' then (k, v) # kvs else (k', v') # map_set k v kvs)"

record metadata =
  fileName :: string
  size_md :: int
  type_md :: "string option"
  toolResource :: "string option"
  totalChunks_md :: "int option"
  chunkSize_md :: "int option"

text \<open>
  A file is addressed by its directory and its name; \<open>chunk_file i\<close> is the name
  \<open>chunk_i\<close>.
\<close>

datatype fname = chunk_file int | other_file string

type_synonym path = "string \<times> fname"

text \<open>The result object handed to \<open>completeUpload\<close> by \<open>assembleFile\<close>.\<close>

record upload_result =
  filePath :: path
  size_res :: int

datatype message =
    upload_started fileId metadata
  | upload_progress fileId jsnum string nat
  | upload_completed fileId upload_result nat
  | upload_error fileId string bool nat
  | pong

section \<open>The progress bus: services/WebSocket/UploadProgress\<close>

datatype ready_state = CONNECTING | OPEN | CLOSING | CLOSED

text \<open>
  A WebSocket connection. \<open>wsUser\<close> is the \<open>userId\<close> that the handlers installed by
  \<open>handleConnection\<close> close over; \<open>sendThrows\<close> says whether \<open>ws.send\<close> raises (the
  network decides); \<open>sent\<close> is what went out through the socket.
\<close>

record ws =
  wsUser :: userId
  readyState :: ready_state
  sendThrows :: bool
  sent :: "message list"

text \<open>
  An object of the \<open>uploadSessions\<close> map. The fields up to \<open>completedChunks\<close> are
  those of the literal in \<open>startUploadSession\<close>; \<open>stage\<close> to \<open>retryable\<close> are assigned
  later by the bus; \<open>tempDir\<close>, \<open>receivedChunks\<close>, \<open>chunkHashes\<close> and \<open>lastActivity\<close>
  are the properties the chunk manager reads and writes on the object it gets from
  \<open>getSession\<close>. \<open>None\<close> is \<open>undefined\<close>.
\<close>

record session =
  userId :: userId
  fileId :: fileId
  startTime :: nat
  status :: string
  progress :: jsnum
  metadata :: metadata
  chunks :: "(int \<times> bool) list"
  totalChunks :: int
  completedChunks :: int
  stage :: "string option"
  lastUpdate :: "nat option"
  result :: "upload_result option"
  endTime :: "nat option"
  error :: "string option"
  retryable :: "bool option"
  tempDir :: "string option"
  receivedChunks :: "int list option"
  chunkHashes :: "(int \<times> string) list option"
  lastActivity :: "nat option"

text \<open>
  The process state: the two maps of the bus, the store of socket objects with the
  next free identity, and the files on disk.
\<close>

record world =
  clients :: "userId \<rightharpoonup> conn list"
  sockets :: "conn \<rightharpoonup> ws"
  nextConn :: conn
  uploadSessions :: "fileId \<rightharpoonup> session"
  files :: "path \<rightharpoonup> bytes"

definition empty_world :: world where
  "empty_world =
     \<lparr>clients = Map.empty, sockets = Map.empty, nextConn = 0,
      uploadSessions = Map.empty, files = Map.empty\<rparr>"

text \<open>\<open>handleConnection\<close>: the new socket joins the set of its user.\<close>

definition handleConnection :: "world \<Rightarrow> userId \<Rightarrow> world" where
  "handleConnection w u =
     (let c = nextConn w;
          userClients = (case clients w u of None \<Rightarrow> [] | Some cs \<Rightarrow> cs)
      in w\<lparr>sockets := (sockets w)(c \<mapsto> \<lparr>wsUser = u, readyState = OPEN, sendThrows = False, sent = []\<rparr>),
            clients := (clients w)(u \<mapsto> set_add c userClients),
            nextConn := Suc c\<rparr>)"

text \<open>The \<open>close\<close> handler of a connection.\<close>

definition onClose :: "world \<Rightarrow> conn \<Rightarrow> world" where
  "onClose w c =
     (case sockets w c of
        None \<Rightarrow> w
      | Some sock \<Rightarrow>
          let w1 = w\<lparr>sockets := (sockets w)(c \<mapsto> sock\<lparr>readyState := CLOSED\<rparr>)\<rparr>
          in (case clients w (wsUser sock) of
                None \<Rightarrow> w1
              | Some userClients \<Rightarrow>
                  let rest = set_delete c userClients
                  in if length rest = 0
                     then w1\<lparr>clients := (clients w)(wsUser sock := None)\<rparr>
                     else w1\<lparr>clients := (clients w)(wsUser sock \<mapsto> rest)\<rparr>))"

text \<open>
  The \<open>message\<close> handler: a ping is answered with a pong on the same socket; a send
  that raises is caught and logged.
\<close>

definition onMessage :: "world \<Rightarrow> conn \<Rightarrow> bool \<Rightarrow> world" where
  "onMessage w c isPing =
     (case sockets w c of
        None \<Rightarrow> w
      | Some sock \<Rightarrow>
          if isPing \<and> readyState sock = OPEN \<and> \<not> sendThrows sock
          then w\<lparr>sockets := (sockets w)(c \<mapsto> sock\<lparr>sent := sent sock @ [pong]\<rparr>)\<rparr>
          else w)"

text \<open>The network changes a socket: its state, and whether sending raises.\<close>

definition socketChange :: "world \<Rightarrow> conn \<Rightarrow> ready_state \<Rightarrow> bool \<Rightarrow> world" where
  "socketChange w c st thr =
     (case sockets w c of
        None \<Rightarrow> w
      | Some sock \<Rightarrow> w\<lparr>sockets := (sockets w)(c \<mapsto> sock\<lparr>readyState := st, sendThrows := thr\<rparr>)\<rparr>)"

text \<open>
  The \<open>forEach\<close> of \<open>broadcastToUser\<close>: every open socket of the set is sent the
  message; a socket that is not open, or whose send raises, is collected as dead.
\<close>

fun send_each :: "(conn \<rightharpoonup> ws) \<Rightarrow> message \<Rightarrow> conn list \<Rightarrow> (conn \<rightharpoonup> ws) \<times> conn list" where
  "send_each socks m [] = (socks, [])"
| "send_each socks m (c # cs) =
     (case socks c of
        None \<Rightarrow> (let (socks', dead) = send_each socks m cs in (socks', c # dead))
      | Some sock \<Rightarrow>
          if readyState sock = OPEN \<and> \<not> sendThrows sock
          then send_each (socks(c \<mapsto> sock\<lparr>sent := sent sock @ [m]\<rparr>)) m cs
          else (let (socks', dead) = send_each socks m cs in (socks', c # dead)))"

definition broadcastToUser :: "world \<Rightarrow> userId \<Rightarrow> message \<Rightarrow> world" where
  "broadcastToUser w u m =
     (case clients w u of
        None \<Rightarrow> w
      | Some userClients \<Rightarrow>
          let (socks', dead) = send_each (sockets w) m userClients
          in w\<lparr>sockets := socks',
                clients := (clients w)(u \<mapsto> fold set_delete dead userClients)\<rparr>)"

definition startUploadSession :: "world \<Rightarrow> fileId \<Rightarrow> userId \<Rightarrow> metadata \<Rightarrow> nat \<Rightarrow> world" where
  "startUploadSession w f u md now =
     broadcastToUser
       (w\<lparr>uploadSessions := (uploadSessions w)(f \<mapsto>
            \<lparr>userId = u, fileId = f, startTime = now, status = ''uploading'',
             progress = Num 0, metadata = md, chunks = [], totalChunks = 0,
             completedChunks = 0, stage = None, lastUpdate = None, result = None,
             endTime = None, error = None, retryable = None, tempDir = None,
             receivedChunks = None, chunkHashes = None, lastActivity = None\<rparr>)\<rparr>)
       u (upload_started f md)"

definition updateProgress :: "world \<Rightarrow> fileId \<Rightarrow> jsnum \<Rightarrow> string \<Rightarrow> nat \<Rightarrow> world" where
  "updateProgress w f p stg now =
     (case uploadSessions w f of
        None \<Rightarrow> w
      | Some s \<Rightarrow>
          let s' = s\<lparr>progress := min1 (max0 p), stage := Some stg, lastUpdate := Some now\<rparr>
          in broadcastToUser (w\<lparr>uploadSessions := (uploadSessions w)(f \<mapsto> s')\<rparr>)
               (userId s') (upload_progress f (progress s') stg now))"

definition updateChunkProgress :: "world \<Rightarrow> fileId \<Rightarrow> int \<Rightarrow> int \<Rightarrow> bool \<Rightarrow> nat \<Rightarrow> world" where
  "updateChunkProgress w f chunkIndex tot completed now =
     (case uploadSessions w f of
        None \<Rightarrow> w
      | Some s \<Rightarrow>
          let s1 = s\<lparr>totalChunks := tot\<rparr>;
              s2 = (if completed
                    then s1\<lparr>completedChunks := completedChunks s1 + 1,
                            chunks := map_set chunkIndex True (chunks s1)\<rparr>
                    else s1)
          in updateProgress (w\<lparr>uploadSessions := (uploadSessions w)(f \<mapsto> s2)\<rparr>) f
               (js_div (of_int (completedChunks s2)) (of_int tot)) ''uploading'' now)"

text \<open>
  \<open>completeUpload\<close>; the timer it sets removes the session thirty seconds later, which
  is \<open>sessionTimer\<close>.
\<close>

definition completeUpload :: "world \<Rightarrow> fileId \<Rightarrow> upload_result \<Rightarrow> nat \<Rightarrow> world" where
  "completeUpload w f res now =
     (case uploadSessions w f of
        None \<Rightarrow> w
      | Some s \<Rightarrow>
          let s' = s\<lparr>status := ''completed'', progress := Num 1, result := Some res,
                     endTime := Some now\<rparr>
          in broadcastToUser (w\<lparr>uploadSessions := (uploadSessions w)(f \<mapsto> s')\<rparr>)
               (userId s') (upload_completed f res (now - startTime s')))"

definition sessionTimer :: "world \<Rightarrow> fileId \<Rightarrow> world" where
  "sessionTimer w f = w\<lparr>uploadSessions := (uploadSessions w)(f := None)\<rparr>"

definition handleUploadError :: "world \<Rightarrow> fileId \<Rightarrow> string \<Rightarrow> bool \<Rightarrow> nat \<Rightarrow> world" where
  "handleUploadError w f msg canRetry now =
     (case uploadSessions w f of
        None \<Rightarrow> w
      | Some s \<Rightarrow>
          let s' = s\<lparr>status := ''error'', error := Some msg, retryable := Some canRetry\<rparr>
          in broadcastToUser (w\<lparr>uploadSessions := (uploadSessions w)(f \<mapsto> s')\<rparr>)
               (userId s') (upload_error f msg canRetry now))"

definition getSessionStatus :: "world \<Rightarrow> fileId \<Rightarrow> session option" where
  "getSessionStatus w f = uploadSessions w f"

definition cleanupOldSessions :: "world \<Rightarrow> nat \<Rightarrow> world" where
  "cleanupOldSessions w now =
     w\<lparr>uploadSessions := (\<lambda>f. case uploadSessions w f of
                                  None \<Rightarrow> None
                                | Some s \<Rightarrow>
                                    if int now - int (startTime s) > 24 * 60 * 60 * 1000
                                    then None else Some s)\<rparr>"


section \<open>Chunked upload: services/Files/ChunkedUpload\<close>

definition chunkSize :: int where
  "chunkSize = 1024 * 1024"

definition maxChunks :: int where
  "maxChunks = 1000"

text \<open>What the services throw.\<close>

datatype error =
    SessionNotFound
  | InvalidChunkIndex
  | HashMismatch int
  | MissingChunks "int list"
  | SizeMismatch
  | FileTooLarge
  | TypeError
  | ENOENT

text \<open>The object that \<open>initializeChunkedUpload\<close> builds and returns.\<close>

record upload_session =
  fileId_us :: fileId
  userId_us :: userId
  tempDir_us :: string
  metadata_us :: metadata
  totalChunks_us :: int
  receivedChunks_us :: "int list"
  chunkHashes_us :: "(int \<times> string) list"
  startTime_us :: nat
  lastActivity_us :: nat

definition getSession :: "world \<Rightarrow> fileId \<Rightarrow> session option" where
  "getSession w f = getSessionStatus w f"

text \<open>
  \<open>initializeChunkedUpload\<close>. The argument \<open>dir\<close> is the path that
  \<open>path.join(process.env.UPLOADS_PATH || 'uploads', 'temp', 'chunks', userId)\<close>
  returns for the call; creating that directory leaves the files as they are. The
  session object is built first, the size is checked next, and only
  \<open>startUploadSession\<close> registers anything.
\<close>

definition initializeChunkedUpload ::
  "world \<Rightarrow> fileId \<Rightarrow> userId \<Rightarrow> metadata \<Rightarrow> string \<Rightarrow> nat
     \<Rightarrow> (error + upload_session) \<times> world" where
  "initializeChunkedUpload w f u md dir now =
     (let session = \<lparr>fileId_us = f, userId_us = u, tempDir_us = dir, metadata_us = md,
                     totalChunks_us = \<lceil>real_of_int (size_md md) / real_of_int chunkSize\<rceil>,
                     receivedChunks_us = [], chunkHashes_us = [],
                     startTime_us = now, lastActivity_us = now\<rparr>
      in if size_md md > chunkSize * maxChunks then (Inl FileTooLarge, w)
         else (Inr session,
               startUploadSession w f u
                 (md\<lparr>totalChunks_md := Some (totalChunks_us session),
                     chunkSize_md := Some chunkSize\<rparr>) now))"

datatype upload_reply = AlreadyReceived | Uploaded jsnum int int

text \<open>A string argument that is given and not empty.\<close>

definition truthy :: "string option \<Rightarrow> bool" where
  "truthy h = (case h of None \<Rightarrow> False | Some x \<Rightarrow> x \<noteq> [])"

text \<open>
  \<open>uploadChunk\<close>, with the digest function \<open>H\<close> (MD5 in hexadecimal) as a parameter.
  A method call on a property that is \<open>undefined\<close> raises \<open>TypeError\<close>, after the
  effects of the statements before it.
\<close>

definition uploadChunk ::
  "(bytes \<Rightarrow> string) \<Rightarrow> world \<Rightarrow> fileId \<Rightarrow> int \<Rightarrow> bytes \<Rightarrow> string option \<Rightarrow> nat
     \<Rightarrow> (error + upload_reply) \<times> world" where
  "uploadChunk H w f chunkIndex chunkData chunkHash now =
     (case getSession w f of
        None \<Rightarrow> (Inl SessionNotFound, w)
      | Some session \<Rightarrow>
          if chunkIndex \<ge> totalChunks session \<or> chunkIndex < 0 then (Inl InvalidChunkIndex, w)
          else (case receivedChunks session of
                  None \<Rightarrow> (Inl TypeError, w)
                | Some rc \<Rightarrow>
                    if chunkIndex \<in> set rc then (Inr AlreadyReceived, w)
                    else if truthy chunkHash \<and> Some (H chunkData) \<noteq> chunkHash
                    then (Inl (HashMismatch chunkIndex), w)
                    else (case tempDir session of
                            None \<Rightarrow> (Inl TypeError, w)
                          | Some dir \<Rightarrow>
                              let rc' = set_add chunkIndex rc;
                                  s1 = session\<lparr>receivedChunks := Some rc'\<rparr>;
                                  w1 = w\<lparr>files := (files w)((dir, chunk_file chunkIndex) \<mapsto> chunkData),
                                         uploadSessions := (uploadSessions w)(f \<mapsto> s1)\<rparr>
                              in (case chunkHashes session of
                                    None \<Rightarrow> (Inl TypeError, w1)
                                  | Some hs \<Rightarrow>
                                      let s2 = s1\<lparr>chunkHashes := Some (map_set chunkIndex (H chunkData) hs),
                                                  lastActivity := Some now\<rparr>;
                                          w2 = w1\<lparr>uploadSessions := (uploadSessions w1)(f \<mapsto> s2)\<rparr>
                                      in (Inr (Uploaded
                                                 (js_div (real (length rc')) (real_of_int (totalChunks s2)))
                                                 (int (length rc')) (totalChunks s2)),
                                          updateChunkProgress w2 f chunkIndex (totalChunks s2) True now)))))"

text \<open>
  \<open>cleanupChunks\<close>: every file of the directory whose name starts with \<open>chunk_\<close> is
  removed. Whatever goes wrong inside (the directory is \<open>undefined\<close>, it does not
  exist, it is not empty) is caught and logged.
\<close>

fun is_chunk_name :: "fname \<Rightarrow> bool" where
  "is_chunk_name (chunk_file i) = True"
| "is_chunk_name (other_file n) = prefix ''chunk_'' n"

definition cleanupChunks :: "world \<Rightarrow> session \<Rightarrow> world" where
  "cleanupChunks w session =
     (case tempDir session of
        None \<Rightarrow> w
      | Some dir \<Rightarrow>
          w\<lparr>files := (\<lambda>p. if fst p = dir \<and> is_chunk_name (snd p) then None else files w p)\<rparr>)"

text \<open>The indices \<open>0, \<dots>, totalChunks - 1\<close> that the loops run over.\<close>

definition indices :: "int \<Rightarrow> int list" where
  "indices n = map int [0..<nat n]"

text \<open>
  The loop of \<open>assembleFile\<close>: each chunk is read and appended to the final file,
  and the bus is told. The first error ends it; what was written stays.
\<close>

fun assemble_loop ::
  "world \<Rightarrow> fileId \<Rightarrow> session \<Rightarrow> path \<Rightarrow> nat \<Rightarrow> int list \<Rightarrow> error option \<times> world" where
  "assemble_loop w f session finalPath now [] = (None, w)"
| "assemble_loop w f session finalPath now (i # is) =
     (case tempDir session of
        None \<Rightarrow> (Some TypeError, w)
      | Some dir \<Rightarrow>
          (case files w (dir, chunk_file i) of
             None \<Rightarrow> (Some ENOENT, w)
           | Some chunkData \<Rightarrow>
               let written = (case files w finalPath of None \<Rightarrow> [] | Some b \<Rightarrow> b);
                   w1 = w\<lparr>files := (files w)(finalPath \<mapsto> written @ chunkData)\<rparr>;
                   w2 = updateProgress w1 f
                          (js_div (real_of_int (i + 1)) (real_of_int (totalChunks session)))
                          ''assembling'' now
               in assemble_loop w2 f session finalPath now is))"

definition assembleFile ::
  "world \<Rightarrow> fileId \<Rightarrow> path \<Rightarrow> nat \<Rightarrow> (error + upload_result) \<times> world" where
  "assembleFile w f finalPath now =
     (case getSession w f of
        None \<Rightarrow> (Inl SessionNotFound, w)
      | Some session \<Rightarrow>
          (case receivedChunks session of
             None \<Rightarrow> (Inl TypeError, w)
           | Some rc \<Rightarrow>
               if int (length rc) \<noteq> totalChunks session
               then (Inl (MissingChunks (filter (\<lambda>i. i \<notin> set rc) (indices (totalChunks session)))), w)
               else (case assemble_loop (w\<lparr>files := (files w)(finalPath \<mapsto> [])\<rparr>) f session finalPath now
                            (indices (totalChunks session)) of
                       (Some e, w1) \<Rightarrow> (Inl e, w1)
                     | (None, w1) \<Rightarrow>
                         let sz = (case files w1 finalPath of None \<Rightarrow> 0 | Some b \<Rightarrow> int (length b))
                         in if sz \<noteq> size_md (metadata session) then (Inl SizeMismatch, w1)
                            else (Inr \<lparr>filePath = finalPath, size_res = sz\<rparr>,
                                  completeUpload (cleanupChunks w1 session) f
                                    \<lparr>filePath = finalPath, size_res = sz\<rparr> now))))"

record resume_info =
  fileId_ri :: fileId
  totalChunks_ri :: int
  receivedChunks_ri :: "int list"
  missingChunks_ri :: "int list"
  progress_ri :: jsnum

text \<open>
  \<open>resumeUpload\<close>: the path of a chunk is built outside the \<open>try\<close>, so a directory
  that is \<open>undefined\<close> raises as soon as there is an index to look at; inside
  the \<open>try\<close> the index is first pushed and then added to \<open>receivedChunks\<close>, and a
  failure of the second is swallowed.
\<close>

definition resumeUpload :: "world \<Rightarrow> fileId \<Rightarrow> (error + resume_info) \<times> world" where
  "resumeUpload w f =
     (case getSession w f of
        None \<Rightarrow> (Inl SessionNotFound, w)
      | Some session \<Rightarrow>
          (case tempDir session of
             None \<Rightarrow>
               if indices (totalChunks session) \<noteq> [] then (Inl TypeError, w)
               else (Inr \<lparr>fileId_ri = f, totalChunks_ri = totalChunks session,
                          receivedChunks_ri = [], missingChunks_ri = [],
                          progress_ri = js_div 0 (real_of_int (totalChunks session))\<rparr>, w)
           | Some dir \<Rightarrow>
               let existingChunks =
                     filter (\<lambda>i. files w (dir, chunk_file i) \<noteq> None) (indices (totalChunks session));
                   session' = session\<lparr>receivedChunks :=
                                map_option (\<lambda>rc. foldl (\<lambda>acc i. set_add i acc) rc existingChunks)
                                  (receivedChunks session)\<rparr>
               in (Inr \<lparr>fileId_ri = f, totalChunks_ri = totalChunks session,
                        receivedChunks_ri = existingChunks,
                        missingChunks_ri =
                          filter (\<lambda>i. i \<notin> set existingChunks) (indices (totalChunks session)),
                        progress_ri = js_div (real (length existingChunks))
                                        (real_of_int (totalChunks session))\<rparr>,
                   w\<lparr>uploadSessions := (uploadSessions w)(f \<mapsto> session')\<rparr>)))"

definition cancelUpload :: "world \<Rightarrow> fileId \<Rightarrow> nat \<Rightarrow> world" where
  "cancelUpload w f now =
     (case getSession w f of
        None \<Rightarrow> w
      | Some session \<Rightarrow>
          handleUploadError (cleanupChunks w session) f ''Upload cancelled'' False now)"

text \<open>
  \<open>validateChunks\<close>: the whole loop is inside a \<open>try\<close> whose handler returns
  \<open>false\<close>.
\<close>

fun validate_loop :: "(bytes \<Rightarrow> string) \<Rightarrow> world \<Rightarrow> session \<Rightarrow> int list \<Rightarrow> bool" where
  "validate_loop H w session [] = True"
| "validate_loop H w session (i # is) =
     (case receivedChunks session of
        None \<Rightarrow> False
      | Some rc \<Rightarrow>
          if i \<notin> set rc then validate_loop H w session is
          else (case tempDir session of
                  None \<Rightarrow> False
                | Some dir \<Rightarrow>
                    (case files w (dir, chunk_file i) of
                       None \<Rightarrow> False
                     | Some chunkData \<Rightarrow>
                         (case chunkHashes session of
                            None \<Rightarrow> False
                          | Some hs \<Rightarrow>
                              if truthy (map_of hs i) \<and> Some (H chunkData) \<noteq> map_of hs i then False
                              else validate_loop H w session is))))"

definition validateChunks :: "(bytes \<Rightarrow> string) \<Rightarrow> world \<Rightarrow> fileId \<Rightarrow> bool" where
  "validateChunks H w f =
     (case getSession w f of
        None \<Rightarrow> False
      | Some session \<Rightarrow> validate_loop H w session (indices (totalChunks session)))"


section \<open>Error recovery: services/Files/ErrorRecovery\<close>

definition maxRetries :: nat where
  "maxRetries = 3"

definition baseDelay :: real where
  "baseDelay = 1000"

definition maxDelay :: real where
  "maxDelay = 30000"

text \<open>
  The numbers of the manager are IEEE doubles. \<open>pow2 k\<close> is \<open>Math.pow(2, k)\<close> for an
  integer \<open>k\<close>; \<open>expo x\<close> is the exponent \<open>e\<close> with \<open>2^e \<le> x < 2^(e+1)\<close> of a
  positive \<open>x\<close>; \<open>rne\<close> rounds to the nearest integer, a tie to the even one; and
  \<open>fl\<close> rounds a real to the nearest double, with 53 bits in the binades of the normal
  numbers and the spacing \<open>2^-1074\<close> below them. Values beyond the largest double do
  not occur below: the one product that can exceed it is capped by \<open>Math.min\<close> with
  \<open>maxDelay\<close>, which gives \<open>maxDelay\<close> for \<open>Infinity\<close> as for any larger number.
\<close>

definition pow2 :: "int \<Rightarrow> real" where
  "pow2 k = (if 0 \<le> k then 2 ^ nat k else 1 / 2 ^ nat (- k))"

function expo_up :: "real \<Rightarrow> int" where
  "expo_up x = (if 2 \<le> x then expo_up (x / 2) + 1 else 0)"
  by pat_completeness auto
termination
proof (relation "measure (\<lambda>x. nat \<lfloor>x\<rfloor>)")
  show "wf (measure (\<lambda>x. nat \<lfloor>x\<rfloor>))" by simp
next
  fix x :: real
  assume a: "2 \<le> x"
  have "x / 2 < of_int \<lfloor>x\<rfloor>"
  proof -
    have "x < of_int \<lfloor>x\<rfloor> + 1" by linarith
    moreover have "1 \<le> (of_int \<lfloor>x\<rfloor> :: real)" using a by (simp add: le_floor_iff)
    ultimately show ?thesis by linarith
  qed
  then have lt: "\<lfloor>x / 2\<rfloor> < \<lfloor>x\<rfloor>" by (simp add: floor_less_iff)
  have "0 \<le> \<lfloor>x / 2\<rfloor>" using a by simp
  with lt have "nat \<lfloor>x / 2\<rfloor> < nat \<lfloor>x\<rfloor>" by linarith
  then show "(x / 2, x) \<in> measure (\<lambda>x. nat \<lfloor>x\<rfloor>)" by simp
qed

function expo_down :: "real \<Rightarrow> int" where
  "expo_down x = (if 0 < x \<and> x < 1 then expo_down (2 * x) - 1 else 0)"
  by pat_completeness auto
termination
proof (relation "measure (\<lambda>x. nat \<lceil>1 / x\<rceil>)")
  show "wf (measure (\<lambda>x. nat \<lceil>1 / x\<rceil>))" by simp
next
  fix x :: real
  assume a: "0 < x \<and> x < 1"
  then have gt: "1 < 1 / x" by simp
  have c2: "2 \<le> \<lceil>1 / x\<rceil>"
  proof -
    have "1 < \<lceil>1 / x\<rceil>" using gt by (simp add: less_ceiling_iff)
    then show ?thesis by linarith
  qed
  have "1 / (2 * x) \<le> of_int (\<lceil>1 / x\<rceil> - 1)"
  proof -
    define y where "y = 1 / x"
    have h: "1 / (2 * x) = y / 2" by (simp add: y_def)
    have "y \<le> of_int \<lceil>y\<rceil>" by linarith
    moreover have "2 \<le> (of_int \<lceil>y\<rceil> :: real)" using c2 unfolding y_def by linarith
    ultimately have "y / 2 \<le> of_int \<lceil>y\<rceil> - 1" by linarith
    then show ?thesis unfolding h by (simp add: y_def)
  qed
  then have "\<lceil>1 / (2 * x)\<rceil> \<le> \<lceil>1 / x\<rceil> - 1"
    by (simp only: ceiling_le_iff)
  with c2 have "nat \<lceil>1 / (2 * x)\<rceil> < nat \<lceil>1 / x\<rceil>" by linarith
  then show "(2 * x, x) \<in> measure (\<lambda>x. nat \<lceil>1 / x\<rceil>)" by simp
qed

definition expo :: "real \<Rightarrow> int" where
  "expo x = (if 1 \<le> x then expo_up x else expo_down x)"

definition rne :: "real \<Rightarrow> int" where
  "rne y =
     (let f = \<lfloor>y\<rfloor>
      in if y - of_int f < 1 / 2 then f
         else if 1 / 2 < y - of_int f then f + 1
         else if even f then f else f + 1)"

definition fl :: "real \<Rightarrow> real" where
  "fl x =
     (if x = 0 then 0
      else (let q = pow2 (max (expo \<bar>x\<bar> - 52) (- 1074))
            in sgn x * of_int (rne (\<bar>x\<bar> / q)) * q))"

text \<open>The field \<open>jitter\<close> is the literal \<open>0.1\<close>, the double nearest to one tenth.\<close>

definition jitter :: real where
  "jitter = fl (1 / 10)"

text \<open>\<open>toLowerCase\<close> on the letters A to Z, and \<open>String.prototype.includes\<close>.\<close>

definition lower_char :: "char \<Rightarrow> char" where
  "lower_char c =
     (if 65 \<le> (of_char c :: nat) \<and> (of_char c :: nat) \<le> 90
      then char_of (of_char c + 32 :: nat) else c)"

definition toLowerCase :: "string \<Rightarrow> string" where
  "toLowerCase m = map lower_char m"

fun includes_str :: "string \<Rightarrow> string \<Rightarrow> bool" where
  "includes_str [] needle = (needle = [])"
| "includes_str (c # cs) needle = (prefix needle (c # cs) \<or> includes_str cs needle)"

definition categorizeError :: "string \<Rightarrow> string" where
  "categorizeError msg =
     (let message = toLowerCase msg
      in if includes_str message ''network'' \<or> includes_str message ''timeout'' then ''network''
         else if includes_str message ''size'' \<or> includes_str message ''limit'' then ''size''
         else if includes_str message ''format'' \<or> includes_str message ''type'' then ''format''
         else if includes_str message ''permission'' \<or> includes_str message ''access'' then ''permission''
         else if includes_str message ''storage'' \<or> includes_str message ''disk'' then ''storage''
         else if includes_str message ''authentication'' \<or> includes_str message ''auth'' then ''auth''
         else ''unknown'')"

definition isRetryableError :: "string \<Rightarrow> string \<Rightarrow> bool" where
  "isRetryableError msg errorType =
     (if errorType \<in> set [''format'', ''permission'', ''auth''] then False
      else \<not> list_ex (includes_str (toLowerCase msg))
                 [''unsupported file type'', ''file too large'', ''invalid file format'',
                  ''permission denied'', ''authentication failed''])"

text \<open>
  \<open>calculateBackoffDelay\<close>, every multiplication and the addition rounded as the
  doubles of the source are; \<open>rnd\<close> is the value that \<open>Math.random()\<close> returns, a
  number from 0 up to but not including 1. \<open>backoffDelay\<close> is the local \<open>delay\<close>, the
  capped exponential before the jitter is added.
\<close>

definition backoffDelay :: "int \<Rightarrow> real" where
  "backoffDelay attempt = min (fl (baseDelay * pow2 (attempt - 1))) maxDelay"

definition calculateBackoffDelay :: "int \<Rightarrow> real \<Rightarrow> int" where
  "calculateBackoffDelay attempt rnd =
     (let delay = backoffDelay attempt;
          jitterAmount = fl (fl (delay * jitter) * rnd)
      in \<lfloor>fl (delay + jitterAmount)\<rfloor>)"

record error_entry =
  error_he :: string
  type_he :: string
  timestamp_he :: nat

record retryInfo =
  attempts :: nat
  startTime_ri :: nat
  errorHistory :: "error_entry list"
  lastError :: "string option"
  lastErrorTime :: "nat option"

type_synonym retryAttempts = "fileId \<rightharpoonup> retryInfo"

definition getRetryInfo :: "retryAttempts \<Rightarrow> fileId \<Rightarrow> nat \<Rightarrow> retryInfo \<times> retryAttempts" where
  "getRetryInfo ra f now =
     (case ra f of
        Some ri \<Rightarrow> (ri, ra)
      | None \<Rightarrow>
          (let ri = \<lparr>attempts = 0, startTime_ri = now, errorHistory = [],
                     lastError = None, lastErrorTime = None\<rparr>
           in (ri, ra(f \<mapsto> ri))))"

definition cleanup :: "retryAttempts \<Rightarrow> fileId \<Rightarrow> retryAttempts" where
  "cleanup ra f = ra(f := None)"

datatype action =
    retry int nat nat string
  | failure nat string "error_entry list"

definition handleFinalFailure ::
  "retryAttempts \<Rightarrow> world \<Rightarrow> fileId \<Rightarrow> string \<Rightarrow> retryInfo \<Rightarrow> nat
     \<Rightarrow> action \<times> retryAttempts \<times> world" where
  "handleFinalFailure ra w f msg ri now =
     (failure (attempts ri) msg (errorHistory ri),
      cleanup ra f,
      handleUploadError w f msg False now)"

text \<open>
  \<open>handleError\<close>. On a retry it also sets a timer for \<open>executeRetry\<close>, which reads
  the record with \<open>getRetryInfo\<close> and reports a failure of the retry through
  \<open>handleError\<close> again.
\<close>

definition handleError ::
  "retryAttempts \<Rightarrow> world \<Rightarrow> fileId \<Rightarrow> string \<Rightarrow> nat \<Rightarrow> real
     \<Rightarrow> action \<times> retryAttempts \<times> world" where
  "handleError ra w f msg now rnd =
     (let (ri0, ra0) = getRetryInfo ra f now;
          errorType = categorizeError msg;
          ri = ri0\<lparr>attempts := attempts ri0 + 1, lastError := Some msg,
                    lastErrorTime := Some now,
                    errorHistory := errorHistory ri0 @
                      [\<lparr>error_he = msg, type_he = errorType, timestamp_he = now\<rparr>]\<rparr>;
          ra1 = ra0(f \<mapsto> ri);
          retryable = isRetryableError msg errorType
      in if \<not> retryable \<or> attempts ri \<ge> maxRetries
         then handleFinalFailure ra1 w f msg ri now
         else (retry (calculateBackoffDelay (int (attempts ri)) rnd) (attempts ri) maxRetries errorType,
               ra1,
               handleUploadError w f msg retryable now))"

text \<open>The actions of a run of \<open>handleError\<close> calls for one file.\<close>

fun handleErrors ::
  "retryAttempts \<Rightarrow> world \<Rightarrow> fileId \<Rightarrow> (string \<times> nat \<times> real) list
     \<Rightarrow> action list \<times> retryAttempts \<times> world" where
  "handleErrors ra w f [] = ([], ra, w)"
| "handleErrors ra w f ((msg, now, rnd) # es) =
     (let (a, ra1, w1) = handleError ra w f msg now rnd;
          (as, ra2, w2) = handleErrors ra1 w1 f es
      in (a # as, ra2, w2))"

fun is_retry :: "action \<Rightarrow> bool" where
  "is_retry (retry d n m t) = True"
| "is_retry (failure n e h) = False"


text \<open>The attempts counter of a file; a file without a record counts 0.\<close>

definition attempts_of :: "retryAttempts \<Rightarrow> fileId \<Rightarrow> nat" where
  "attempts_of ra f = (case ra f of None \<Rightarrow> 0 | Some ri \<Rightarrow> attempts ri)"

text \<open>
  The retry maps that calls of \<open>handleError\<close> and the \<open>getRetryInfo\<close> of a retry timer
  produce, starting with the empty map of the constructor.
\<close>

inductive reachable_retries :: "retryAttempts \<Rightarrow> bool" where
  retries_init: "reachable_retries Map.empty"
| retries_handleError:
    "reachable_retries ra \<Longrightarrow> reachable_retries (fst (snd (handleError ra w f msg now rnd)))"
| retries_getRetryInfo:
    "reachable_retries ra \<Longrightarrow> reachable_retries (snd (getRetryInfo ra f now))"

text \<open>Every stored counter is below \<open>maxRetries\<close>.\<close>

definition retries_bounded :: "retryAttempts \<Rightarrow> bool" where
  "retries_bounded ra = (\<forall>f ri. ra f = Some ri \<longrightarrow> attempts ri < maxRetries)"

section \<open>Processing pipeline: services/Files/ProcessingPipeline\<close>

datatype stage_status = pending | running | completed | errored

record pstage =
  name_st :: string
  weight :: real
  description :: string
  status_st :: stage_status
  startTime_st :: "nat option"
  endTime_st :: "nat option"
  duration_st :: "int option"
  progress_st :: real
  error_st :: "string option"

definition stages_table :: "(string \<times> real \<times> string) list" where
  "stages_table =
     [(''upload'', 1 / 10, ''File upload''),
      (''validation'', 5 / 100, ''File validation''),
      (''processing'', 3 / 10, ''File processing''),
      (''ocr'', 2 / 10, ''OCR processing''),
      (''stt'', 15 / 100, ''Speech-to-text''),
      (''embedding'', 1 / 10, ''Vector embedding''),
      (''storage'', 5 / 100, ''Storage save''),
      (''cleanup'', 5 / 100, ''Cleanup'')]"

definition buildStageList :: "string list \<Rightarrow> pstage list" where
  "buildStageList requiredStages =
     map (\<lambda>stageName.
            \<lparr>name_st = stageName,
             weight = (case map_of stages_table stageName of
                         Some (wt, d) \<Rightarrow> (if wt = 0 then 1 / 10 else wt)
                       | None \<Rightarrow> 1 / 10),
             description = (case map_of stages_table stageName of
                              Some (wt, d) \<Rightarrow> (if d = [] then stageName else d)
                            | None \<Rightarrow> stageName),
             status_st = pending, startTime_st = None, endTime_st = None,
             duration_st = None, progress_st = 0, error_st = None\<rparr>)
         ([''upload'', ''validation'', ''processing''] @ requiredStages @ [''storage'', ''cleanup''])"

record pipeline =
  fileId_pl :: fileId
  userId_pl :: userId
  metadata_pl :: metadata
  stages :: "pstage list"
  currentStage :: string
  stageProgress :: real
  overallProgress :: real
  startTime_pl :: nat
  stageStartTime :: nat
  stageHistory :: "(string \<times> nat option \<times> nat \<times> int) list"
  errors_pl :: "(string \<times> string \<times> nat \<times> bool) list"

type_synonym pipelines = "fileId \<rightharpoonup> pipeline"

text \<open>\<open>stages.find(s => s.name === stageName)\<close>, and an assignment to what it found.\<close>

definition find_stage :: "string \<Rightarrow> pstage list \<Rightarrow> pstage option" where
  "find_stage n ss = find (\<lambda>s. name_st s = n) ss"

fun update_first :: "string \<Rightarrow> (pstage \<Rightarrow> pstage) \<Rightarrow> pstage list \<Rightarrow> pstage list" where
  "update_first n g [] = []"
| "update_first n g (s # ss) = (if name_st s = n then g s # ss else s # update_first n g ss)"

text \<open>The loop of \<open>updateOverallProgress\<close> with its two running sums.\<close>

fun weigh :: "pstage list \<Rightarrow> real \<times> real \<Rightarrow> real \<times> real" where
  "weigh [] acc = acc"
| "weigh (s # ss) (totalWeight, completedWeight) =
     weigh ss
       (totalWeight + weight s,
        if status_st s = completed then completedWeight + weight s
        else if status_st s = running then completedWeight + weight s * progress_st s
        else completedWeight)"

definition updateOverallProgress :: "pipeline \<Rightarrow> pipeline" where
  "updateOverallProgress p =
     (let (totalWeight, completedWeight) = weigh (stages p) (0, 0)
      in p\<lparr>overallProgress := (if totalWeight > 0 then completedWeight / totalWeight else 0)\<rparr>)"

text \<open>
  The stage operations on one pipeline object; \<open>None\<close> is the early \<open>return\<close>, with
  nothing changed and nothing sent.
\<close>

definition startStage_pl :: "pipeline \<Rightarrow> string \<Rightarrow> nat \<Rightarrow> pipeline option" where
  "startStage_pl p n now =
     (case find_stage n (stages p) of
        None \<Rightarrow> None
      | Some st \<Rightarrow>
          Some (updateOverallProgress
                  (p\<lparr>stages := update_first n
                                  (\<lambda>s. s\<lparr>status_st := running, startTime_st := Some now,
                                          progress_st := 0\<rparr>) (stages p),
                      currentStage := n, stageStartTime := now, stageProgress := 0\<rparr>)))"

definition updateStageProgress_pl :: "pipeline \<Rightarrow> string \<Rightarrow> real \<Rightarrow> pipeline option" where
  "updateStageProgress_pl p n x =
     (case find_stage n (stages p) of
        None \<Rightarrow> None
      | Some st \<Rightarrow>
          if status_st st \<noteq> running then None
          else Some (updateOverallProgress
                       (p\<lparr>stages := update_first n (\<lambda>s. s\<lparr>progress_st := min 1 (max 0 x)\<rparr>) (stages p),
                           stageProgress := min 1 (max 0 x)\<rparr>)))"

definition completeStage_pl :: "pipeline \<Rightarrow> string \<Rightarrow> nat \<Rightarrow> pipeline option" where
  "completeStage_pl p n now =
     (case find_stage n (stages p) of
        None \<Rightarrow> None
      | Some st \<Rightarrow>
          let d = int now - (case startTime_st st of None \<Rightarrow> 0 | Some t \<Rightarrow> int t)
          in Some (updateOverallProgress
                     (p\<lparr>stages := update_first n
                                     (\<lambda>s. s\<lparr>status_st := completed, endTime_st := Some now,
                                             duration_st := Some d, progress_st := 1\<rparr>) (stages p),
                         stageHistory := stageHistory p @ [(n, startTime_st st, now, d)]\<rparr>)))"

definition handleStageError_pl ::
  "pipeline \<Rightarrow> string \<Rightarrow> string \<Rightarrow> bool \<Rightarrow> nat \<Rightarrow> pipeline option" where
  "handleStageError_pl p n msg recoverable now =
     (case find_stage n (stages p) of
        None \<Rightarrow> None
      | Some st \<Rightarrow>
          let d = int now - (case startTime_st st of None \<Rightarrow> 0 | Some t \<Rightarrow> int t)
          in Some (p\<lparr>stages := update_first n
                                  (\<lambda>s. s\<lparr>status_st := errored, error_st := Some msg,
                                          endTime_st := Some now, duration_st := Some d\<rparr>) (stages p),
                      errors_pl := errors_pl p @ [(n, msg, now, recoverable)]\<rparr>))"

text \<open>
  The methods of the manager: they look the pipeline up, apply the operation and hand
  \<open>pipeline.overallProgress\<close> to \<open>updateProgress\<close> of the bus.
\<close>

definition initializePipeline ::
  "pipelines \<Rightarrow> world \<Rightarrow> fileId \<Rightarrow> userId \<Rightarrow> metadata \<Rightarrow> string list \<Rightarrow> nat \<Rightarrow> pipelines \<times> world" where
  "initializePipeline ps w f u md requiredStages now =
     (ps(f \<mapsto> \<lparr>fileId_pl = f, userId_pl = u, metadata_pl = md,
                 stages = buildStageList requiredStages, currentStage = ''upload'',
                 stageProgress = 0, overallProgress = 0, startTime_pl = now,
                 stageStartTime = now, stageHistory = [], errors_pl = []\<rparr>),
      updateProgress w f (Num 0) ''pipeline_started'' now)"

definition emit_pl ::
  "pipelines \<Rightarrow> world \<Rightarrow> fileId \<Rightarrow> string \<Rightarrow> nat \<Rightarrow> pipeline option \<Rightarrow> pipelines \<times> world" where
  "emit_pl ps w f n now r =
     (case r of
        None \<Rightarrow> (ps, w)
      | Some p' \<Rightarrow> (ps(f \<mapsto> p'), updateProgress w f (Num (overallProgress p')) n now))"

definition startStage :: "pipelines \<Rightarrow> world \<Rightarrow> fileId \<Rightarrow> string \<Rightarrow> nat \<Rightarrow> pipelines \<times> world" where
  "startStage ps w f n now =
     (case ps f of None \<Rightarrow> (ps, w) | Some p \<Rightarrow> emit_pl ps w f n now (startStage_pl p n now))"

definition updateStageProgress ::
  "pipelines \<Rightarrow> world \<Rightarrow> fileId \<Rightarrow> string \<Rightarrow> real \<Rightarrow> nat \<Rightarrow> pipelines \<times> world" where
  "updateStageProgress ps w f n x now =
     (case ps f of None \<Rightarrow> (ps, w) | Some p \<Rightarrow> emit_pl ps w f n now (updateStageProgress_pl p n x))"

definition completeStage :: "pipelines \<Rightarrow> world \<Rightarrow> fileId \<Rightarrow> string \<Rightarrow> nat \<Rightarrow> pipelines \<times> world" where
  "completeStage ps w f n now =
     (case ps f of None \<Rightarrow> (ps, w) | Some p \<Rightarrow> emit_pl ps w f n now (completeStage_pl p n now))"

definition handleStageError ::
  "pipelines \<Rightarrow> world \<Rightarrow> fileId \<Rightarrow> string \<Rightarrow> string \<Rightarrow> bool \<Rightarrow> nat \<Rightarrow> pipelines \<times> world" where
  "handleStageError ps w f n msg recoverable now =
     (case ps f of
        None \<Rightarrow> (ps, w)
      | Some p \<Rightarrow> emit_pl ps w f n now (handleStageError_pl p n msg recoverable now))"

text \<open>
  The weighted aggregate of a stage list, as the specification writes it: a stage
  counts with its weight when completed, with weight times progress when running,
  and not at all otherwise.
\<close>

definition contribution :: "pstage \<Rightarrow> real" where
  "contribution s =
     (if status_st s = completed then weight s
      else if status_st s = running then weight s * progress_st s
      else 0)"

definition aggregate :: "pstage list \<Rightarrow> real" where
  "aggregate ss =
     (if sum_list (map weight ss) > 0
      then sum_list (map contribution ss) / sum_list (map weight ss) else 0)"

text \<open>
  A pipeline as the manager keeps it between calls while no stage has failed: weights
  are positive, progress is a fraction, and \<open>overallProgress\<close> is the aggregate of the
  stage list (the value last sent).
\<close>

definition wf_pipeline :: "pipeline \<Rightarrow> bool" where
  "wf_pipeline p =
     (list_all (\<lambda>s. 0 < weight s \<and> 0 \<le> progress_st s \<and> progress_st s \<le> 1) (stages p)
      \<and> overallProgress p = aggregate (stages p))"

section \<open>The states the services reach\<close>

text \<open>
  The worlds reached from the empty one by the entry points of the services: the
  events of the sockets, the timers, the methods of the chunk manager, and the bus
  methods that the pipeline and the recovery manager call with values of their own.
  \<open>startUploadSession\<close> is called by \<open>initializeChunkedUpload\<close> only and
  \<open>updateChunkProgress\<close> by \<open>uploadChunk\<close> only.
\<close>

inductive reachable :: "world \<Rightarrow> bool" where
  r_init: "reachable empty_world"
| r_connect: "reachable w \<Longrightarrow> reachable (handleConnection w u)"
| r_close: "reachable w \<Longrightarrow> reachable (onClose w c)"
| r_message: "reachable w \<Longrightarrow> reachable (onMessage w c isPing)"
| r_socket: "reachable w \<Longrightarrow> reachable (socketChange w c st thr)"
| r_timer: "reachable w \<Longrightarrow> reachable (sessionTimer w f)"
| r_sweep: "reachable w \<Longrightarrow> reachable (cleanupOldSessions w now)"
| r_progress: "reachable w \<Longrightarrow> reachable (updateProgress w f p stg now)"
| r_complete: "reachable w \<Longrightarrow> reachable (completeUpload w f res now)"
| r_error: "reachable w \<Longrightarrow> reachable (handleUploadError w f msg canRetry now)"
| r_initialize: "reachable w \<Longrightarrow> reachable (snd (initializeChunkedUpload w f u md dir now))"
| r_upload: "reachable w \<Longrightarrow> reachable (snd (uploadChunk H w f i chunkData chunkHash now))"
| r_assemble: "reachable w \<Longrightarrow> reachable (snd (assembleFile w f finalPath now))"
| r_resume: "reachable w \<Longrightarrow> reachable (snd (resumeUpload w f))"
| r_cancel: "reachable w \<Longrightarrow> reachable (cancelUpload w f now)"

text \<open>Every socket in a user's set belongs to that user, and identities are fresh.\<close>

definition clients_own :: "world \<Rightarrow> bool" where
  "clients_own w =
     ((\<forall>u cs c. clients w u = Some cs \<and> c \<in> set cs \<longrightarrow>
          (\<exists>sock. sockets w c = Some sock \<and> wsUser sock = u))
      \<and> (\<forall>c. nextConn w \<le> c \<longrightarrow> sockets w c = None))"

text \<open>Every registered session has the shape of the literal in \<open>startUploadSession\<close>.\<close>

definition bus_shaped :: "world \<Rightarrow> bool" where
  "bus_shaped w =
     (\<forall>f s. uploadSessions w f = Some s \<longrightarrow>
        totalChunks s = 0 \<and> receivedChunks s = None \<and> chunkHashes s = None \<and> tempDir s = None)"

text \<open>What a socket has been sent, if it exists.\<close>

definition sent_to :: "world \<Rightarrow> conn \<Rightarrow> message list" where
  "sent_to w c = (case sockets w c of None \<Rightarrow> [] | Some sock \<Rightarrow> sent sock)"


section \<open>Concrete runs\<close>

text \<open>
  Inputs for the runs that the theorems below are checked on; the directories are those
  of the default uploads root.
\<close>

definition example_md :: "int \<Rightarrow> metadata" where
  "example_md n = \<lparr>fileName = ''a.bin'', size_md = n, type_md = None, toolResource = None,
                    totalChunks_md = None, chunkSize_md = None\<rparr>"

definition two_users :: world where
  "two_users = handleConnection (handleConnection empty_world ''alice'') ''bob''"

definition example_world :: world where
  "example_world = snd (initializeChunkedUpload two_users ''f1'' ''bob'' (example_md 3145728) ''uploads/temp/chunks/bob'' 1)"

text \<open>A stand-in for the digest, and the world after a file of no bytes is initialised.\<close>

definition toy_digest :: "bytes \<Rightarrow> string" where
  "toy_digest b = ''md5:'' @ map char_of b"

definition empty_file_world :: world where
  "empty_file_world = snd (initializeChunkedUpload empty_world ''f0'' ''alice'' (example_md 0) ''uploads/temp/chunks/alice'' 1)"


text \<open>The largest double below 1, a value that \<open>Math.random()\<close> can return.\<close>

definition last_draw :: real where
  "last_draw = 9007199254740991 / 9007199254740992"

text \<open>Four retryable errors in a row, and the retry maps after the first and the second.\<close>

definition disk_errors :: "(string \<times> nat \<times> real) list" where
  "disk_errors = [(''disk full'', 1, 0), (''disk full'', 2, 0), (''disk full'', 3, 0), (''disk full'', 4, 0)]"

definition one_error :: retryAttempts where
  "one_error = fst (snd (handleError Map.empty empty_world ''f1'' ''disk full'' 1 0))"

definition two_errors :: retryAttempts where
  "two_errors = fst (snd (handleError one_error empty_world ''f1'' ''disk full'' 2 0))"

text \<open>
  A pipeline with the default stages, taken through \<open>startStage\<close>, two calls of
  \<open>updateStageProgress\<close> with one half and then one fifth, and \<open>completeStage\<close> followed
  by \<open>startStage\<close> again; the worlds are those after the two progress calls of the
  manager.
\<close>

definition example_pipeline :: pipeline where
  "example_pipeline =
     the (fst (initializePipeline Map.empty example_world ''f1'' ''bob'' (example_md 3145728) [] 1) ''f1'')"

definition pipeline_started :: pipeline where
  "pipeline_started = the (startStage_pl example_pipeline ''upload'' 2)"

definition pipeline_half :: pipeline where
  "pipeline_half = the (updateStageProgress_pl pipeline_started ''upload'' (1 / 2))"

definition pipeline_fifth :: pipeline where
  "pipeline_fifth = the (updateStageProgress_pl pipeline_half ''upload'' (1 / 5))"

definition pipeline_done :: pipeline where
  "pipeline_done = the (completeStage_pl pipeline_half ''upload'' 5)"

definition pipeline_again :: pipeline where
  "pipeline_again = the (startStage_pl pipeline_done ''upload'' 6)"

definition world_half :: world where
  "world_half = snd (updateStageProgress [''f1'' \<mapsto> pipeline_started] example_world ''f1'' ''upload'' (1 / 2) 3)"

definition world_fifth :: world where
  "world_fifth = snd (updateStageProgress [''f1'' \<mapsto> pipeline_half] world_half ''f1'' ''upload'' (1 / 5) 4)"

text \<open>A pending stage as \<open>buildStageList\<close> makes it.\<close>

definition mk_stage :: "string \<Rightarrow> real \<Rightarrow> string \<Rightarrow> pstage" where
  "mk_stage n wt d =
     \<lparr>name_st = n, weight = wt, description = d, status_st = pending, startTime_st = None,
      endTime_st = None, duration_st = None, progress_st = 0, error_st = None\<rparr>"

section \<open>The bus delivers to the owner only\<close>

subsection \<open>send_each\<close>

lemma send_each_other:
  "c \<notin> set cs \<Longrightarrow> fst (send_each socks m cs) c = socks c"
  by (induction cs arbitrary: socks) (auto simp: case_prod_beta split: option.splits)

lemma send_each_user:
  "fst (send_each socks m cs) c = Some sock' \<Longrightarrow> \<exists>sock. socks c = Some sock \<and> wsUser sock = wsUser sock'"
proof (induction cs arbitrary: socks)
  case Nil
  then show ?case by simp
next
  case (Cons a cs)
  show ?case
  proof (cases "socks a")
    case None
    with Cons show ?thesis by (simp add: case_prod_beta)
  next
    case (Some sa)
    show ?thesis
    proof (cases "readyState sa = OPEN \<and> \<not> sendThrows sa")
      case True
      with Some Cons.prems
      have "fst (send_each (socks(a \<mapsto> sa\<lparr>sent := sent sa @ [m]\<rparr>)) m cs) c = Some sock'"
        by simp
      from Cons.IH[OF this] obtain sock where
        "(socks(a \<mapsto> sa\<lparr>sent := sent sa @ [m]\<rparr>)) c = Some sock" "wsUser sock = wsUser sock'"
        by blast
      with Some show ?thesis by (cases "c = a") auto
    next
      case False
      with Some Cons show ?thesis by (simp add: case_prod_beta)
    qed
  qed
qed

lemma send_each_dom:
  "(fst (send_each socks m cs) c = None) = (socks c = None)"
  by (induction cs arbitrary: socks) (auto simp: case_prod_beta split: option.splits)

lemma set_fold_set_delete: "x \<in> set (fold set_delete dead cs) \<Longrightarrow> x \<in> set cs"
proof (induction dead arbitrary: cs)
  case Nil
  then show ?case by simp
next
  case (Cons a dead)
  then have "x \<in> set (set_delete a cs)" by simp
  then show ?case by (simp add: set_delete_def)
qed

lemma clients_broadcast:
  "clients (broadcastToUser w u m) v = Some cs' \<Longrightarrow> \<exists>cs. clients w v = Some cs \<and> set cs' \<subseteq> set cs"
  by (auto simp: broadcastToUser_def case_prod_beta dest: set_fold_set_delete split: option.splits if_splits)

lemma sockets_broadcast:
  "sockets (broadcastToUser w u m) = (case clients w u of None \<Rightarrow> sockets w | Some cs \<Rightarrow> fst (send_each (sockets w) m cs))"
  by (auto simp: broadcastToUser_def case_prod_beta split: option.splits)

lemma nextConn_broadcast [simp]: "nextConn (broadcastToUser w u m) = nextConn w"
  by (auto simp: broadcastToUser_def case_prod_beta split: option.splits)

lemma uploadSessions_broadcast [simp]: "uploadSessions (broadcastToUser w u m) = uploadSessions w"
  by (simp add: broadcastToUser_def case_prod_beta split: option.splits)

lemma files_broadcast [simp]: "files (broadcastToUser w u m) = files w"
  by (simp add: broadcastToUser_def case_prod_beta split: option.splits)

lemma sockets_broadcast_dom: "(sockets (broadcastToUser w u m) c = None) = (sockets w c = None)"
  by (simp add: sockets_broadcast send_each_dom split: option.splits)

lemma sockets_broadcast_user:
  "sockets (broadcastToUser w u m) c = Some sock' \<Longrightarrow> \<exists>sock. sockets w c = Some sock \<and> wsUser sock = wsUser sock'"
  by (cases "clients w u") (auto simp: sockets_broadcast dest: send_each_user)

lemma clients_own_broadcast:
  assumes "clients_own w"
  shows "clients_own (broadcastToUser w u m)"
  unfolding clients_own_def
proof (intro conjI allI impI)
  fix v cs' c
  assume a: "clients (broadcastToUser w u m) v = Some cs' \<and> c \<in> set cs'"
  then obtain cs where cs: "clients w v = Some cs" "c \<in> set cs"
    using clients_broadcast by blast
  then obtain sock where sock: "sockets w c = Some sock" "wsUser sock = v"
    using assms unfolding clients_own_def by blast
  have "sockets (broadcastToUser w u m) c \<noteq> None"
    using sock(1) by (simp add: sockets_broadcast_dom)
  then obtain sock' where s': "sockets (broadcastToUser w u m) c = Some sock'" by auto
  then have "wsUser sock' = wsUser sock"
    using sock(1) sockets_broadcast_user by fastforce
  with s' sock(2) show "\<exists>sock. sockets (broadcastToUser w u m) c = Some sock \<and> wsUser sock = v"
    by simp
next
  fix c assume "nextConn (broadcastToUser w u m) \<le> c"
  then have "sockets w c = None" using assms unfolding clients_own_def by simp
  then show "sockets (broadcastToUser w u m) c = None"
    by (simp add: sockets_broadcast_dom)
qed

lemma clients_own_sessions [simp]: "clients_own (w\<lparr>uploadSessions := x\<rparr>) = clients_own w"
  by (simp add: clients_own_def)

lemma clients_own_files [simp]: "clients_own (w\<lparr>files := x\<rparr>) = clients_own w"
  by (simp add: clients_own_def)

lemma clients_own_startUploadSession: "clients_own w \<Longrightarrow> clients_own (startUploadSession w f u md now)"
  by (simp add: startUploadSession_def clients_own_broadcast)

lemma clients_own_updateProgress: "clients_own w \<Longrightarrow> clients_own (updateProgress w f p stg now)"
  by (simp add: updateProgress_def Let_def clients_own_broadcast split: option.splits)

lemma clients_own_updateChunkProgress: "clients_own w \<Longrightarrow> clients_own (updateChunkProgress w f i n b now)"
  by (simp add: updateChunkProgress_def Let_def clients_own_updateProgress split: option.splits)

lemma clients_own_completeUpload: "clients_own w \<Longrightarrow> clients_own (completeUpload w f res now)"
  by (simp add: completeUpload_def Let_def clients_own_broadcast split: option.splits)

lemma clients_own_handleUploadError: "clients_own w \<Longrightarrow> clients_own (handleUploadError w f msg b now)"
  by (simp add: handleUploadError_def Let_def clients_own_broadcast split: option.splits)

lemma clients_own_handleConnection:
  assumes "clients_own w"
  shows "clients_own (handleConnection w u)"
  unfolding clients_own_def
proof (intro conjI allI impI)
  fix v cs c
  assume a: "clients (handleConnection w u) v = Some cs \<and> c \<in> set cs"
  have fresh: "sockets w (nextConn w) = None"
    using assms unfolding clients_own_def by simp
  show "\<exists>sock. sockets (handleConnection w u) c = Some sock \<and> wsUser sock = v"
  proof (cases "c = nextConn w")
    case True
    have "v = u"
    proof (rule ccontr)
      assume "v \<noteq> u"
      with a have "clients w v = Some cs" by (simp add: handleConnection_def Let_def)
      with a assms have "sockets w c \<noteq> None" unfolding clients_own_def by blast
      with True fresh show False by simp
    qed
    with True show ?thesis by (simp add: handleConnection_def Let_def)
  next
    case False
    have "\<exists>cs0. clients w v = Some cs0 \<and> c \<in> set cs0"
      using a False
      by (cases "v = u") (auto simp: handleConnection_def Let_def set_add_def split: option.splits if_splits)
    then obtain sock where "sockets w c = Some sock" "wsUser sock = v"
      using assms unfolding clients_own_def by blast
    with False show ?thesis by (simp add: handleConnection_def Let_def)
  qed
next
  fix c assume "nextConn (handleConnection w u) \<le> c"
  then have "nextConn w \<le> c" "c \<noteq> nextConn w" by (auto simp: handleConnection_def Let_def)
  then show "sockets (handleConnection w u) c = None"
    using assms unfolding clients_own_def by (simp add: handleConnection_def Let_def)
qed

lemma clients_own_onClose:
  assumes "clients_own w"
  shows "clients_own (onClose w c)"
proof (cases "sockets w c")
  case None
  with assms show ?thesis by (simp add: onClose_def)
next
  case (Some sock)
  have socks: "\<And>d. sockets (onClose w c) d = (if d = c then Some (sock\<lparr>readyState := CLOSED\<rparr>) else sockets w d)"
    using Some by (auto simp: onClose_def Let_def split: option.splits)
  have cl: "\<And>v cs. clients (onClose w c) v = Some cs \<Longrightarrow> \<exists>cs0. clients w v = Some cs0 \<and> set cs \<subseteq> set cs0"
    using Some by (auto simp: onClose_def Let_def set_delete_def split: option.splits if_splits)
  have nx: "nextConn (onClose w c) = nextConn w"
    using Some by (auto simp: onClose_def Let_def split: option.splits)
  show ?thesis
    unfolding clients_own_def
  proof (intro conjI allI impI)
    fix v cs d
    assume "clients (onClose w c) v = Some cs \<and> d \<in> set cs"
    with cl obtain cs0 where "clients w v = Some cs0" "d \<in> set cs0" by blast
    then obtain sd where "sockets w d = Some sd" "wsUser sd = v"
      using assms unfolding clients_own_def by blast
    with Some show "\<exists>sock. sockets (onClose w c) d = Some sock \<and> wsUser sock = v"
      by (auto simp: socks)
  next
    fix d assume "nextConn (onClose w c) \<le> d"
    then have "sockets w d = None" using assms nx unfolding clients_own_def by simp
    with Some show "sockets (onClose w c) d = None" by (auto simp: socks)
  qed
qed

lemma clients_own_step:
  assumes "clients_own w"
    and "\<And>v cs'. clients w' v = Some cs' \<Longrightarrow> \<exists>cs. clients w v = Some cs \<and> set cs' \<subseteq> set cs"
    and "\<And>c sock. sockets w c = Some sock \<Longrightarrow> \<exists>sock'. sockets w' c = Some sock' \<and> wsUser sock' = wsUser sock"
    and "\<And>c. sockets w c = None \<Longrightarrow> sockets w' c = None"
    and "nextConn w' = nextConn w"
  shows "clients_own w'"
  unfolding clients_own_def
proof (intro conjI allI impI)
  fix v cs' c
  assume "clients w' v = Some cs' \<and> c \<in> set cs'"
  with assms(2) obtain cs where "clients w v = Some cs" "c \<in> set cs" by blast
  with assms(1) obtain sock where "sockets w c = Some sock" "wsUser sock = v"
    unfolding clients_own_def by blast
  with assms(3) show "\<exists>sock. sockets w' c = Some sock \<and> wsUser sock = v" by fastforce
next
  fix c assume "nextConn w' \<le> c"
  with assms(1,5) have "sockets w c = None" unfolding clients_own_def by simp
  with assms(4) show "sockets w' c = None" by simp
qed

lemma clients_own_onMessage: "clients_own w \<Longrightarrow> clients_own (onMessage w c b)"
  by (erule clients_own_step) (auto simp: onMessage_def split: option.splits if_splits)

lemma clients_own_socketChange: "clients_own w \<Longrightarrow> clients_own (socketChange w c st thr)"
  by (erule clients_own_step) (auto simp: socketChange_def split: option.splits)

lemma clients_own_sessionTimer: "clients_own w \<Longrightarrow> clients_own (sessionTimer w f)"
  by (simp add: sessionTimer_def)

lemma clients_own_cleanupOldSessions: "clients_own w \<Longrightarrow> clients_own (cleanupOldSessions w now)"
  by (simp add: cleanupOldSessions_def)

lemma clients_own_cleanupChunks: "clients_own w \<Longrightarrow> clients_own (cleanupChunks w s)"
  by (simp add: cleanupChunks_def split: option.splits)

lemma clients_own_initialize: "clients_own w \<Longrightarrow> clients_own (snd (initializeChunkedUpload w f u md dir now))"
  by (simp add: initializeChunkedUpload_def Let_def clients_own_startUploadSession)

lemma clients_own_uploadChunk: "clients_own w \<Longrightarrow> clients_own (snd (uploadChunk H w f i d h now))"
  by (simp add: uploadChunk_def Let_def clients_own_updateChunkProgress split: option.splits)

lemma clients_own_assemble_loop:
  "clients_own w \<Longrightarrow> clients_own (snd (assemble_loop w f s p now is))"
proof (induction "is" arbitrary: w)
  case Nil
  then show ?case by simp
next
  case (Cons i "is")
  show ?case
    using Cons.prems
    by (auto simp: Let_def split: option.splits intro!: Cons.IH clients_own_updateProgress)
qed

lemma clients_own_assembleFile: "clients_own w \<Longrightarrow> clients_own (snd (assembleFile w f p now))"
proof -
  assume a: "clients_own w"
  have "\<And>s. clients_own (snd (assemble_loop (w\<lparr>files := (files w)(p \<mapsto> [])\<rparr>) f s p now (indices (totalChunks s))))"
    using a by (simp add: clients_own_assemble_loop)
  then show ?thesis
    using a
    by (auto simp: assembleFile_def Let_def split: option.splits prod.splits
             intro!: clients_own_completeUpload clients_own_cleanupChunks)
       (metis snd_conv)+
qed

lemma clients_own_resumeUpload: "clients_own w \<Longrightarrow> clients_own (snd (resumeUpload w f))"
  by (simp add: resumeUpload_def Let_def split: option.splits)

lemma clients_own_cancelUpload: "clients_own w \<Longrightarrow> clients_own (cancelUpload w f now)"
  by (simp add: cancelUpload_def clients_own_handleUploadError clients_own_cleanupChunks split: option.splits)

lemma clients_own_empty: "clients_own empty_world"
  by (simp add: clients_own_def empty_world_def)

lemma reachable_clients_own: "reachable w \<Longrightarrow> clients_own w"
proof (induction rule: reachable.induct)
  case r_init
  show ?case by (rule clients_own_empty)
qed (simp_all add: clients_own_handleConnection clients_own_onClose clients_own_onMessage
       clients_own_socketChange clients_own_sessionTimer clients_own_cleanupOldSessions
       clients_own_updateProgress clients_own_completeUpload clients_own_handleUploadError
       clients_own_initialize clients_own_uploadChunk clients_own_assembleFile
       clients_own_resumeUpload clients_own_cancelUpload)

lemma broadcast_other_socket:
  assumes "clients_own w" and "sockets w c = Some sock" and "wsUser sock \<noteq> u"
  shows "sockets (broadcastToUser w u m) c = sockets w c"
proof (cases "clients w u")
  case None
  then show ?thesis by (simp add: sockets_broadcast)
next
  case (Some cs)
  have "c \<notin> set cs"
  proof
    assume "c \<in> set cs"
    with Some assms(1) obtain sock' where "sockets w c = Some sock'" "wsUser sock' = u"
      unfolding clients_own_def by blast
    with assms(2,3) show False by simp
  qed
  with Some show ?thesis by (simp add: sockets_broadcast send_each_other)
qed

lemma sent_to_broadcast_other:
  assumes "clients_own w" and "sockets w c = Some sock" and "wsUser sock \<noteq> u"
  shows "sent_to (broadcastToUser (w\<lparr>uploadSessions := x\<rparr>) u m) c = sent_to w c"
proof -
  have "sockets (broadcastToUser (w\<lparr>uploadSessions := x\<rparr>) u m) c = sockets (w\<lparr>uploadSessions := x\<rparr>) c"
    using assms by (intro broadcast_other_socket[where sock = sock]) simp_all
  then show ?thesis by (simp add: sent_to_def)
qed

text \<open>
  Claim C8. In every state the services reach, a message that \<open>broadcastToUser\<close> sends
  for an owner is not delivered to a socket connected as another user, and so neither
  is any event of a session (\<open>upload_started\<close>, \<open>upload_progress\<close>,
  \<open>upload_completed\<close>, \<open>upload_error\<close>), which is sent to the \<open>userId\<close> of the
  session: what such a socket has been sent stays as it was.
\<close>

theorem fanout_isolation:
  assumes "reachable w" and "sockets w c = Some sock" and "wsUser sock \<noteq> owner"
  shows "sent_to (broadcastToUser w owner m) c = sent_to w c
       \<and> sent_to (startUploadSession w f owner md now) c = sent_to w c
       \<and> (\<forall>s. uploadSessions w f = Some s \<and> userId s = owner \<longrightarrow>
             sent_to (updateProgress w f p stg now) c = sent_to w c
           \<and> sent_to (updateChunkProgress w f i n b now) c = sent_to w c
           \<and> sent_to (completeUpload w f res now) c = sent_to w c
           \<and> sent_to (handleUploadError w f msg canRetry now) c = sent_to w c)"
proof -
  have own: "clients_own w" using assms(1) by (rule reachable_clients_own)
  note iso = sent_to_broadcast_other[OF own assms(2,3)]
  have 1: "sent_to (broadcastToUser w owner m) c = sent_to w c"
    using iso[of "uploadSessions w" m] by simp
  have 2: "sent_to (startUploadSession w f owner md now) c = sent_to w c"
    by (simp add: startUploadSession_def iso)
  have 3: "sent_to (updateProgress w f p stg now) c = sent_to w c"
    if "uploadSessions w f = Some s" "userId s = owner" for s p stg and w' :: world
    using that by (simp add: updateProgress_def Let_def iso)
  have 4: "sent_to (updateChunkProgress w f i n b now) c = sent_to w c"
    if "uploadSessions w f = Some s" "userId s = owner" for s
    using that by (simp add: updateChunkProgress_def updateProgress_def Let_def iso)
  have 5: "sent_to (completeUpload w f res now) c = sent_to w c"
    if "uploadSessions w f = Some s" "userId s = owner" for s
    using that by (simp add: completeUpload_def Let_def iso)
  have 6: "sent_to (handleUploadError w f msg canRetry now) c = sent_to w c"
    if "uploadSessions w f = Some s" "userId s = owner" for s
    using that by (simp add: handleUploadError_def Let_def iso)
  from 1 2 3 4 5 6 show ?thesis by blast
qed

lemma reachable_two_users: "reachable two_users"
  unfolding two_users_def by (intro reachable.intros)

lemma reachable_example_world: "reachable example_world"
  unfolding example_world_def by (intro reachable.intros reachable_two_users)

lemma example_world_sockets:
  "sockets example_world 0 = Some \<lparr>wsUser = ''alice'', readyState = OPEN, sendThrows = False, sent = []\<rparr>"
  by (simp add: example_world_def two_users_def initializeChunkedUpload_def Let_def example_md_def
        chunkSize_def maxChunks_def startUploadSession_def broadcastToUser_def handleConnection_def
        empty_world_def set_add_def set_delete_def)

lemma example_world_session:
  "uploadSessions example_world ''f1'' =
     Some \<lparr>userId = ''bob'', fileId = ''f1'', startTime = 1, status = ''uploading'',
            progress = Num 0,
            metadata = \<lparr>fileName = ''a.bin'', size_md = 3145728, type_md = None, toolResource = None,
                    totalChunks_md = Some 3, chunkSize_md = Some 1048576\<rparr>, chunks = [], totalChunks = 0,
            completedChunks = 0, stage = None, lastUpdate = None, result = None,
            endTime = None, error = None, retryable = None, tempDir = None,
            receivedChunks = None, chunkHashes = None, lastActivity = None\<rparr>"
  by (simp add: example_world_def initializeChunkedUpload_def Let_def example_md_def
        chunkSize_def maxChunks_def startUploadSession_def)

theorem fanout_isolation_witness:
  "reachable example_world
   \<and> sockets example_world 0 = Some \<lparr>wsUser = ''alice'', readyState = OPEN, sendThrows = False, sent = []\<rparr>
   \<and> ''alice'' \<noteq> ''bob''
   \<and> (\<exists>s. uploadSessions example_world ''f1'' = Some s \<and> userId s = ''bob'')
   \<and> sent_to (updateProgress example_world ''f1'' (Num (1 / 2)) ''uploading'' 2) 0 = []
   \<and> sent_to (handleUploadError example_world ''f1'' ''Upload cancelled'' False 2) 0 = []
   \<and> sent_to (updateProgress example_world ''f1'' (Num (1 / 2)) ''uploading'' 2) 1
       = [upload_started ''f1'' (metadata (the (uploadSessions example_world ''f1''))),
          upload_progress ''f1'' (Num (1 / 2)) ''uploading'' 2]"
proof -
  have s0: "sockets example_world 0 = Some \<lparr>wsUser = ''alice'', readyState = OPEN, sendThrows = False, sent = []\<rparr>"
    by (rule example_world_sockets)
  have ne: "wsUser \<lparr>wsUser = ''alice'', readyState = OPEN, sendThrows = False, sent = []\<rparr> \<noteq> ''bob''"
    by simp
  have e0: "sent_to example_world 0 = []" by (simp add: sent_to_def s0)
  note iso = fanout_isolation[OF reachable_example_world s0 ne,
      where f = "''f1''" and p = "Num (1 / 2)" and stg = "''uploading''" and now = 2
        and msg = "''Upload cancelled''" and canRetry = False]
  have d: "sent_to (updateProgress example_world ''f1'' (Num (1 / 2)) ''uploading'' 2) 1
       = [upload_started ''f1'' (metadata (the (uploadSessions example_world ''f1''))),
          upload_progress ''f1'' (Num (1 / 2)) ''uploading'' 2]"
    by (simp add: example_world_def two_users_def initializeChunkedUpload_def Let_def example_md_def
        chunkSize_def maxChunks_def startUploadSession_def broadcastToUser_def handleConnection_def
        empty_world_def set_add_def set_delete_def updateProgress_def sent_to_def)
  show ?thesis
    using iso reachable_example_world s0 e0 d by (simp add: example_world_session)
qed

section \<open>The sessions of the chunk manager\<close>

lemma bus_shaped_sockets [simp]: "bus_shaped (w\<lparr>sockets := x\<rparr>) = bus_shaped w"
  by (simp add: bus_shaped_def)
lemma bus_shaped_clients [simp]: "bus_shaped (w\<lparr>clients := x\<rparr>) = bus_shaped w"
  by (simp add: bus_shaped_def)
lemma bus_shaped_nextConn [simp]: "bus_shaped (w\<lparr>nextConn := x\<rparr>) = bus_shaped w"
  by (simp add: bus_shaped_def)
lemma bus_shaped_files [simp]: "bus_shaped (w\<lparr>files := x\<rparr>) = bus_shaped w"
  by (simp add: bus_shaped_def)

lemma bus_shaped_broadcast [simp]: "bus_shaped (broadcastToUser w u m) = bus_shaped w"
  by (simp add: bus_shaped_def)

lemma bus_shaped_handleConnection: "bus_shaped w \<Longrightarrow> bus_shaped (handleConnection w u)"
  by (simp add: handleConnection_def Let_def)

lemma bus_shaped_onClose: "bus_shaped w \<Longrightarrow> bus_shaped (onClose w c)"
  by (simp add: onClose_def Let_def split: option.splits)

lemma bus_shaped_onMessage: "bus_shaped w \<Longrightarrow> bus_shaped (onMessage w c b)"
  by (simp add: onMessage_def split: option.splits)

lemma bus_shaped_socketChange: "bus_shaped w \<Longrightarrow> bus_shaped (socketChange w c st thr)"
  by (simp add: socketChange_def split: option.splits)

lemma bus_shaped_sessionTimer: "bus_shaped w \<Longrightarrow> bus_shaped (sessionTimer w f)"
  by (simp add: sessionTimer_def bus_shaped_def)

lemma bus_shaped_cleanupOldSessions: "bus_shaped w \<Longrightarrow> bus_shaped (cleanupOldSessions w now)"
  by (auto simp: cleanupOldSessions_def bus_shaped_def split: option.splits if_splits)

lemma bus_shaped_startUploadSession: "bus_shaped w \<Longrightarrow> bus_shaped (startUploadSession w f u md now)"
  by (simp add: startUploadSession_def) (simp add: bus_shaped_def)

lemma bus_shaped_updateProgress: "bus_shaped w \<Longrightarrow> bus_shaped (updateProgress w f p stg now)"
  by (simp add: updateProgress_def Let_def split: option.splits) (auto simp: bus_shaped_def)

lemma bus_shaped_completeUpload: "bus_shaped w \<Longrightarrow> bus_shaped (completeUpload w f res now)"
  by (simp add: completeUpload_def Let_def split: option.splits) (auto simp: bus_shaped_def)

lemma bus_shaped_handleUploadError: "bus_shaped w \<Longrightarrow> bus_shaped (handleUploadError w f msg b now)"
  by (simp add: handleUploadError_def Let_def split: option.splits) (auto simp: bus_shaped_def)

lemma bus_shaped_initialize: "bus_shaped w \<Longrightarrow> bus_shaped (snd (initializeChunkedUpload w f u md dir now))"
  by (simp add: initializeChunkedUpload_def Let_def bus_shaped_startUploadSession)

text \<open>On a bus-shaped world the methods of the chunk manager stop early.\<close>

lemma bus_shaped_getSession:
  "bus_shaped w \<Longrightarrow> getSession w f = Some s \<Longrightarrow>
     totalChunks s = 0 \<and> receivedChunks s = None \<and> chunkHashes s = None \<and> tempDir s = None"
  by (simp add: bus_shaped_def getSession_def getSessionStatus_def)

lemma uploadChunk_bus_shaped:
  assumes "bus_shaped w"
  shows "uploadChunk H w f i d h now =
           (case getSession w f of None \<Rightarrow> (Inl SessionNotFound, w) | Some s \<Rightarrow> (Inl InvalidChunkIndex, w))"
proof (cases "getSession w f")
  case None
  then show ?thesis by (simp add: uploadChunk_def)
next
  case (Some s)
  with assms have "totalChunks s = 0" by (simp add: bus_shaped_getSession)
  with Some show ?thesis by (simp add: uploadChunk_def) linarith
qed

lemma assembleFile_bus_shaped:
  assumes "bus_shaped w"
  shows "assembleFile w f p now =
           (case getSession w f of None \<Rightarrow> (Inl SessionNotFound, w) | Some s \<Rightarrow> (Inl TypeError, w))"
proof (cases "getSession w f")
  case None
  then show ?thesis by (simp add: assembleFile_def)
next
  case (Some s)
  with assms have "receivedChunks s = None" by (simp add: bus_shaped_getSession)
  with Some show ?thesis by (simp add: assembleFile_def)
qed

lemma resumeUpload_bus_shaped:
  assumes "bus_shaped w"
  shows "resumeUpload w f =
           (case getSession w f of
              None \<Rightarrow> (Inl SessionNotFound, w)
            | Some s \<Rightarrow> (Inr \<lparr>fileId_ri = f, totalChunks_ri = 0, receivedChunks_ri = [],
                              missingChunks_ri = [], progress_ri = NaN\<rparr>, w))"
proof (cases "getSession w f")
  case None
  then show ?thesis by (simp add: resumeUpload_def)
next
  case (Some s)
  with assms have "totalChunks s = 0" "tempDir s = None" by (simp_all add: bus_shaped_getSession)
  with Some show ?thesis by (simp add: resumeUpload_def indices_def js_div_def)
qed

lemma validateChunks_bus_shaped:
  assumes "bus_shaped w"
  shows "validateChunks H w f = (getSession w f \<noteq> None)"
proof (cases "getSession w f")
  case None
  then show ?thesis by (simp add: validateChunks_def)
next
  case (Some s)
  with assms have "totalChunks s = 0" by (simp add: bus_shaped_getSession)
  with Some show ?thesis by (simp add: validateChunks_def indices_def)
qed

lemma cancelUpload_bus_shaped:
  assumes "bus_shaped w"
  shows "cancelUpload w f now = handleUploadError w f ''Upload cancelled'' False now"
proof (cases "getSession w f")
  case None
  then show ?thesis
    by (simp add: cancelUpload_def handleUploadError_def getSession_def getSessionStatus_def)
next
  case (Some s)
  with assms have "tempDir s = None" by (simp add: bus_shaped_getSession)
  with Some show ?thesis by (simp add: cancelUpload_def cleanupChunks_def)
qed

lemma reachable_bus_shaped: "reachable w \<Longrightarrow> bus_shaped w"
proof (induction rule: reachable.induct)
  case r_init
  show ?case by (simp add: bus_shaped_def empty_world_def)
next
  case (r_upload w H f i chunkData chunkHash now)
  then show ?case by (simp add: uploadChunk_bus_shaped split: option.splits)
next
  case (r_assemble w f finalPath now)
  then show ?case by (simp add: assembleFile_bus_shaped split: option.splits)
next
  case (r_resume w f)
  then show ?case by (simp add: resumeUpload_bus_shaped split: option.splits)
next
  case (r_cancel w f now)
  then show ?case by (simp add: cancelUpload_bus_shaped bus_shaped_handleUploadError)
qed (simp_all add: bus_shaped_handleConnection bus_shaped_onClose bus_shaped_onMessage
       bus_shaped_socketChange bus_shaped_sessionTimer bus_shaped_cleanupOldSessions
       bus_shaped_updateProgress bus_shaped_completeUpload bus_shaped_handleUploadError
       bus_shaped_initialize)

lemma cancel_session:
  assumes "getSession w f = Some s"
  shows "getSession (cancelUpload w f now) f =
           Some (s\<lparr>status := ''error'', error := Some ''Upload cancelled'', retryable := Some False\<rparr>)"
  using assms
  by (simp add: cancelUpload_def handleUploadError_def cleanupChunks_def Let_def getSession_def
        getSessionStatus_def split: option.splits)

lemma uploadChunk_found:
  assumes "getSession w f = Some s"
  shows "fst (uploadChunk H w f i d h t) \<noteq> Inl SessionNotFound"
  using assms by (simp add: uploadChunk_def Let_def split: option.splits)

text \<open>
  Claim C10, as amended. \<open>cancelUpload\<close> on an existing session does not release it:
  the session stays registered, marked with status \<open>error\<close>, the message
  \<open>Upload cancelled\<close> and \<open>retryable = false\<close>, and a later \<open>uploadChunk\<close> for the
  file does not fail with the session-not-found error.
\<close>

theorem cancel_keeps_session:
  assumes "getSession w f = Some s"
  shows "getSession (cancelUpload w f now) f =
           Some (s\<lparr>status := ''error'', error := Some ''Upload cancelled'', retryable := Some False\<rparr>)
       \<and> fst (uploadChunk H (cancelUpload w f now) f i d h t) \<noteq> Inl SessionNotFound"
  using cancel_session[OF assms] uploadChunk_found by blast

lemma example_world_shaped: "bus_shaped example_world"
  by (rule reachable_bus_shaped[OF reachable_example_world])

lemma getSession_example_world:
  "getSession example_world ''f1'' = uploadSessions example_world ''f1''"
  by (simp add: getSession_def getSessionStatus_def)

text \<open>
  Claim C10 as stated fails: after \<open>cancelUpload\<close> the session is still found, and the
  next \<open>uploadChunk\<close> is answered with the invalid-index error, not with
  session-not-found.
\<close>

theorem cancel_releases_counterexample:
  "getSession example_world ''f1'' \<noteq> None
   \<and> getSession (cancelUpload example_world ''f1'' 2) ''f1'' \<noteq> None
   \<and> fst (uploadChunk toy_digest (cancelUpload example_world ''f1'' 2) ''f1'' 0 [7] None 3)
       = Inl InvalidChunkIndex
   \<and> fst (uploadChunk toy_digest (cancelUpload example_world ''f1'' 2) ''f1'' 0 [7] None 3)
       \<noteq> Inl SessionNotFound"
proof -
  have r: "reachable (cancelUpload example_world ''f1'' 2)"
    by (intro reachable.intros reachable_example_world)
  have g: "getSession example_world ''f1'' \<noteq> None"
    by (simp add: getSession_example_world example_world_session)
  then obtain s where s: "getSession example_world ''f1'' = Some s" by auto
  have c: "getSession (cancelUpload example_world ''f1'' 2) ''f1'' \<noteq> None"
    using cancel_session[OF s] by simp
  then show ?thesis
    using g uploadChunk_bus_shaped[OF reachable_bus_shaped[OF r]]
    by (auto split: option.splits)
qed

theorem cancel_keeps_session_witness:
  "getSession example_world ''f1'' = Some (the (uploadSessions example_world ''f1''))
   \<and> status (the (getSession (cancelUpload example_world ''f1'' 2) ''f1'')) = ''error''
   \<and> retryable (the (getSession (cancelUpload example_world ''f1'' 2) ''f1'')) = Some False
   \<and> fst (uploadChunk toy_digest (cancelUpload example_world ''f1'' 2) ''f1'' 0 [7] None 3)
       \<noteq> Inl SessionNotFound"
proof -
  have g: "getSession example_world ''f1'' = Some (the (uploadSessions example_world ''f1''))"
    by (simp add: getSession_example_world example_world_session)
  show ?thesis
    using cancel_keeps_session[OF g, of 2 toy_digest 0 "[7]" None 3] g by simp
qed

text \<open>
  Claim C9. \<open>initializeChunkedUpload\<close> raises the size error exactly when
  \<open>metadata.size\<close> exceeds \<open>chunkSize * maxChunks\<close> (1048576 * 1000 bytes), and then
  nothing is registered; a size equal to the limit is accepted and registered, the
  limit plus one is rejected.
\<close>

theorem initialize_size_limit:
  "(fst (initializeChunkedUpload w f u md dir now) = Inl FileTooLarge
      \<longleftrightarrow> size_md md > chunkSize * maxChunks)
   \<and> (size_md md > chunkSize * maxChunks \<longrightarrow>
        initializeChunkedUpload w f u md dir now = (Inl FileTooLarge, w))
   \<and> (size_md md \<le> chunkSize * maxChunks \<longrightarrow>
        (\<exists>s. fst (initializeChunkedUpload w f u md dir now) = Inr s)
        \<and> getSession (snd (initializeChunkedUpload w f u md dir now)) f \<noteq> None)
   \<and> chunkSize * maxChunks = 1048576 * 1000
   \<and> (\<exists>s. fst (initializeChunkedUpload w f u (md\<lparr>size_md := chunkSize * maxChunks\<rparr>) dir now) = Inr s)
   \<and> fst (initializeChunkedUpload w f u (md\<lparr>size_md := chunkSize * maxChunks + 1\<rparr>) dir now)
       = Inl FileTooLarge"
  by (simp add: initializeChunkedUpload_def Let_def getSession_def getSessionStatus_def
        startUploadSession_def chunkSize_def maxChunks_def)

theorem initialize_size_limit_witness:
  "size_md (example_md 1048576001) > chunkSize * maxChunks
   \<and> initializeChunkedUpload empty_world ''f1'' ''alice'' (example_md 1048576001) ''uploads/temp/chunks/alice'' 1
       = (Inl FileTooLarge, empty_world)
   \<and> size_md (example_md 1048576000) \<le> chunkSize * maxChunks
   \<and> (\<exists>s. fst (initializeChunkedUpload empty_world ''f1'' ''alice'' (example_md 1048576000) ''uploads/temp/chunks/alice'' 1) = Inr s)
   \<and> getSession (snd (initializeChunkedUpload empty_world ''f1'' ''alice'' (example_md 1048576000) ''uploads/temp/chunks/alice'' 1)) ''f1''
       \<noteq> None"
  using initialize_size_limit[of empty_world "''f1''" "''alice''" "example_md 1048576001" "''uploads/temp/chunks/alice''" 1]
    initialize_size_limit[of empty_world "''f1''" "''alice''" "example_md 1048576000" "''uploads/temp/chunks/alice''" 1]
  by (simp add: example_md_def chunkSize_def maxChunks_def)

lemma initialize_registers:
  assumes "initializeChunkedUpload w f u md dir now = (Inr s, w')"
  shows "getSession w' f =
           Some \<lparr>userId = u, fileId = f, startTime = now, status = ''uploading'',
                  progress = Num 0,
                  metadata = md\<lparr>totalChunks_md := Some (totalChunks_us s),
                                 chunkSize_md := Some chunkSize\<rparr>,
                  chunks = [], totalChunks = 0, completedChunks = 0, stage = None,
                  lastUpdate = None, result = None, endTime = None, error = None,
                  retryable = None, tempDir = None, receivedChunks = None,
                  chunkHashes = None, lastActivity = None\<rparr>"
    and "s = \<lparr>fileId_us = f, userId_us = u, tempDir_us = dir,
               metadata_us = md,
               totalChunks_us = \<lceil>real_of_int (size_md md) / real_of_int chunkSize\<rceil>,
               receivedChunks_us = [], chunkHashes_us = [],
               startTime_us = now, lastActivity_us = now\<rparr>"
  using assms
  by (auto simp: initializeChunkedUpload_def Let_def getSession_def getSessionStatus_def
        startUploadSession_def split: if_splits)

text \<open>
  Claim C2. After \<open>initializeChunkedUpload\<close> has succeeded, \<open>getSession\<close> returns the
  record that \<open>startUploadSession\<close> created, whose \<open>totalChunks\<close> is 0 and which has no
  \<open>receivedChunks\<close>, \<open>chunkHashes\<close> or \<open>tempDir\<close>, while the session object that was
  built and returned carries the chunk count, the empty set and map and the directory.
  In every state the services reach, the session that \<open>uploadChunk\<close>, \<open>assembleFile\<close>,
  \<open>resumeUpload\<close> and \<open>validateChunks\<close> get from \<open>getSession\<close> has that shape, so the
  index check of \<open>uploadChunk\<close> compares with 0 and rejects every index.
\<close>

theorem getSession_returns_bus_record:
  "(initializeChunkedUpload w f u md dir now = (Inr s, w') \<longrightarrow>
      getSession w' f =
        Some \<lparr>userId = u, fileId = f, startTime = now, status = ''uploading'',
               progress = Num 0,
               metadata = md\<lparr>totalChunks_md := Some (totalChunks_us s),
                              chunkSize_md := Some chunkSize\<rparr>,
               chunks = [], totalChunks = 0, completedChunks = 0, stage = None,
               lastUpdate = None, result = None, endTime = None, error = None,
               retryable = None, tempDir = None, receivedChunks = None,
               chunkHashes = None, lastActivity = None\<rparr>
      \<and> totalChunks_us s = \<lceil>real_of_int (size_md md) / real_of_int chunkSize\<rceil>
      \<and> receivedChunks_us s = [] \<and> chunkHashes_us s = []
      \<and> tempDir_us s = dir)
   \<and> (reachable w \<and> getSession w f = Some r \<longrightarrow>
        totalChunks r = 0 \<and> receivedChunks r = None \<and> chunkHashes r = None \<and> tempDir r = None
        \<and> uploadChunk H w f i d h t = (Inl InvalidChunkIndex, w)
        \<and> assembleFile w f p t = (Inl TypeError, w)
        \<and> resumeUpload w f =
            (Inr \<lparr>fileId_ri = f, totalChunks_ri = 0, receivedChunks_ri = [],
                   missingChunks_ri = [], progress_ri = NaN\<rparr>, w)
        \<and> validateChunks H w f)"
proof (intro conjI impI)
  assume a: "initializeChunkedUpload w f u md dir now = (Inr s, w')"
  note b = initialize_registers[OF a]
  show "getSession w' f =
        Some \<lparr>userId = u, fileId = f, startTime = now, status = ''uploading'',
               progress = Num 0,
               metadata = md\<lparr>totalChunks_md := Some (totalChunks_us s),
                              chunkSize_md := Some chunkSize\<rparr>,
               chunks = [], totalChunks = 0, completedChunks = 0, stage = None,
               lastUpdate = None, result = None, endTime = None, error = None,
               retryable = None, tempDir = None, receivedChunks = None,
               chunkHashes = None, lastActivity = None\<rparr>"
    by (rule b(1))
  show "totalChunks_us s = \<lceil>real_of_int (size_md md) / real_of_int chunkSize\<rceil>"
    by (subst b(2)) simp
  show "receivedChunks_us s = []" by (subst b(2)) simp
  show "chunkHashes_us s = []" by (subst b(2)) simp
  show "tempDir_us s = dir" by (subst b(2)) simp
next
  assume a: "reachable w \<and> getSession w f = Some r"
  then have sh: "bus_shaped w" by (simp add: reachable_bus_shaped)
  from a have g: "getSession w f = Some r" by simp
  show "totalChunks r = 0" "receivedChunks r = None" "chunkHashes r = None" "tempDir r = None"
    using bus_shaped_getSession[OF sh g] by simp_all
  show "uploadChunk H w f i d h t = (Inl InvalidChunkIndex, w)"
    by (simp add: uploadChunk_bus_shaped[OF sh] g)
  show "assembleFile w f p t = (Inl TypeError, w)"
    by (simp add: assembleFile_bus_shaped[OF sh] g)
  show "resumeUpload w f =
            (Inr \<lparr>fileId_ri = f, totalChunks_ri = 0, receivedChunks_ri = [],
                   missingChunks_ri = [], progress_ri = NaN\<rparr>, w)"
    by (simp add: resumeUpload_bus_shaped[OF sh] g)
  show "validateChunks H w f"
    by (simp add: validateChunks_bus_shaped[OF sh] g)
qed

lemma example_world_initialize:
  "initializeChunkedUpload two_users ''f1'' ''bob'' (example_md 3145728) ''uploads/temp/chunks/bob'' 1
     = (Inr \<lparr>fileId_us = ''f1'', userId_us = ''bob'', tempDir_us = ''uploads/temp/chunks/bob'',
              metadata_us = example_md 3145728, totalChunks_us = 3,
              receivedChunks_us = [], chunkHashes_us = [],
              startTime_us = 1, lastActivity_us = 1\<rparr>, example_world)"
  by (simp add: example_world_def initializeChunkedUpload_def Let_def example_md_def
        chunkSize_def maxChunks_def)

theorem getSession_returns_bus_record_witness:
  "initializeChunkedUpload two_users ''f1'' ''bob'' (example_md 3145728) ''uploads/temp/chunks/bob'' 1
     = (Inr \<lparr>fileId_us = ''f1'', userId_us = ''bob'', tempDir_us = ''uploads/temp/chunks/bob'',
              metadata_us = example_md 3145728, totalChunks_us = 3,
              receivedChunks_us = [], chunkHashes_us = [],
              startTime_us = 1, lastActivity_us = 1\<rparr>, example_world)
   \<and> reachable example_world
   \<and> getSession example_world ''f1'' = Some (the (uploadSessions example_world ''f1''))
   \<and> totalChunks (the (uploadSessions example_world ''f1'')) = 0
   \<and> receivedChunks (the (uploadSessions example_world ''f1'')) = None
   \<and> tempDir (the (uploadSessions example_world ''f1'')) = None
   \<and> uploadChunk toy_digest example_world ''f1'' 0 [7] None 2 = (Inl InvalidChunkIndex, example_world)
   \<and> uploadChunk toy_digest example_world ''f1'' 2 [7] None 2 = (Inl InvalidChunkIndex, example_world)
   \<and> assembleFile example_world ''f1'' (''out'', other_file ''a.bin'') 2 = (Inl TypeError, example_world)"
proof -
  have g: "getSession example_world ''f1'' = Some (the (uploadSessions example_world ''f1''))"
    by (simp add: getSession_example_world example_world_session)
  note t = getSession_returns_bus_record[where w = example_world and f = "''f1''"
      and r = "the (uploadSessions example_world ''f1'')" and H = toy_digest and d = "[7]"
      and h = None and t = 2 and p = "(''out'', other_file ''a.bin'')"]
  show ?thesis
    using t[where i = 0] t[where i = 2] g reachable_example_world example_world_initialize
    by simp
qed

text \<open>
  Claim C1 on the code. For a file of no bytes every index of the empty range has been
  accepted, and for the file of three chunks none has; in both cases \<open>assembleFile\<close>
  raises \<open>TypeError\<close> on the \<open>receivedChunks\<close> that the registered record lacks,
  where the claim has the assembled file and the missing-chunks error.
\<close>

theorem assembleFile_type_error:
  "fst (initializeChunkedUpload empty_world ''f0'' ''alice'' (example_md 0) ''uploads/temp/chunks/alice'' 1)
     = Inr \<lparr>fileId_us = ''f0'', userId_us = ''alice'', tempDir_us = ''uploads/temp/chunks/alice'',
             metadata_us = example_md 0, totalChunks_us = 0,
             receivedChunks_us = [], chunkHashes_us = [],
             startTime_us = 1, lastActivity_us = 1\<rparr>
   \<and> assembleFile empty_file_world ''f0'' (''out'', other_file ''a.bin'') 2
       = (Inl TypeError, empty_file_world)
   \<and> assembleFile example_world ''f1'' (''out'', other_file ''a.bin'') 2
       = (Inl TypeError, example_world)"
proof -
  have "reachable empty_file_world"
    unfolding empty_file_world_def by (intro reachable.intros)
  then have 1: "bus_shaped empty_file_world" by (rule reachable_bus_shaped)
  have 2: "getSession empty_file_world ''f0'' \<noteq> None"
    by (simp add: empty_file_world_def initializeChunkedUpload_def Let_def example_md_def
        chunkSize_def maxChunks_def startUploadSession_def getSession_def getSessionStatus_def)
  have 3: "getSession example_world ''f1'' \<noteq> None"
    by (simp add: getSession_example_world example_world_session)
  have 4: "fst (initializeChunkedUpload empty_world ''f0'' ''alice'' (example_md 0) ''uploads/temp/chunks/alice'' 1)
     = Inr \<lparr>fileId_us = ''f0'', userId_us = ''alice'', tempDir_us = ''uploads/temp/chunks/alice'',
             metadata_us = example_md 0, totalChunks_us = 0,
             receivedChunks_us = [], chunkHashes_us = [],
             startTime_us = 1, lastActivity_us = 1\<rparr>"
    by (simp add: initializeChunkedUpload_def Let_def example_md_def
        chunkSize_def maxChunks_def)
  show ?thesis
    using 2 3 4 by (auto simp: assembleFile_bus_shaped[OF 1] assembleFile_bus_shaped[OF example_world_shaped])
qed

text \<open>
  Claim C3 on the code. With a digest that differs from that of the bytes, and again
  with the right digest, \<open>uploadChunk\<close> is stopped by the index check: the digest is
  never compared, and the upload with the right digest does not succeed.
\<close>

theorem uploadChunk_digest_unreached:
  "uploadChunk H example_world ''f1'' 0 [7] (Some ''deadbeef'') 2
       = (Inl InvalidChunkIndex, example_world)
   \<and> uploadChunk H example_world ''f1'' 0 [7] (Some (H [7])) 3
       = (Inl InvalidChunkIndex, example_world)"
proof -
  have "getSession example_world ''f1'' \<noteq> None"
    by (simp add: getSession_example_world example_world_session)
  then show ?thesis
    by (auto simp: uploadChunk_bus_shaped[OF example_world_shaped])
qed

text \<open>No state the services reach lets \<open>uploadChunk\<close> succeed.\<close>

lemma uploadChunk_never_succeeds:
  assumes "reachable w"
  shows "fst (uploadChunk H w f i d h t) = Inl SessionNotFound
       \<or> fst (uploadChunk H w f i d h t) = Inl InvalidChunkIndex"
  by (simp add: uploadChunk_bus_shaped[OF reachable_bus_shaped[OF assms]] split: option.splits)




text \<open>
  On a session that carries \<open>receivedChunks\<close>, a digest that is given and differs
  from that of the bytes is answered with the mismatch error, the state unchanged.
\<close>

lemma uploadChunk_digest_mismatch:
  assumes "getSession w f = Some s" and "0 \<le> i" and "i < totalChunks s"
    and "receivedChunks s = Some rc" and "i \<notin> set rc"
    and "h = Some x" and "x \<noteq> []" and "x \<noteq> H d"
  shows "uploadChunk H w f i d h t = (Inl (HashMismatch i), w)"
  using assms by (auto simp: uploadChunk_def truthy_def)

lemma files_updateProgress [simp]: "files (updateProgress w f p stg now) = files w"
  by (simp add: updateProgress_def Let_def split: option.splits)

lemma assemble_loop_concat:
  assumes "tempDir s = Some dir"
    and "\<forall>i \<in> set js. files w (dir, chunk_file i) = Some (chunk i)"
    and "\<forall>i \<in> set js. finalPath \<noteq> (dir, chunk_file i)"
    and "files w finalPath = Some acc"
  shows "fst (assemble_loop w f s finalPath now js) = None
       \<and> files (snd (assemble_loop w f s finalPath now js)) finalPath
           = Some (acc @ concat (map chunk js))"
  using assms(2,3,4)
proof (induction js arbitrary: w acc)
  case Nil
  then show ?case by simp
next
  case (Cons j js)
  let ?w1 = "w\<lparr>files := (files w)(finalPath \<mapsto> acc @ chunk j)\<rparr>"
  let ?w2 = "updateProgress ?w1 f
               (js_div (real_of_int (j + 1)) (real_of_int (totalChunks s))) ''assembling'' now"
  have step: "assemble_loop w f s finalPath now (j # js) = assemble_loop ?w2 f s finalPath now js"
    using assms(1) Cons.prems by (simp add: Let_def)
  have a: "\<forall>i \<in> set js. files ?w2 (dir, chunk_file i) = Some (chunk i)"
    using Cons.prems by auto
  have b: "\<forall>i \<in> set js. finalPath \<noteq> (dir, chunk_file i)"
    using Cons.prems by simp
  have c: "files ?w2 finalPath = Some (acc @ chunk j)" by simp
  from Cons.IH[OF a b c] show ?case unfolding step by simp
qed


lemma indices_set: "set (indices n) = {i. 0 \<le> i \<and> i < n}"
proof -
  have "\<And>i. 0 \<le> i \<Longrightarrow> i < n \<Longrightarrow> i \<in> int ` {0..<nat n}"
  proof -
    fix i :: int assume "0 \<le> i" "i < n"
    then have "nat i \<in> {0..<nat n}" "i = int (nat i)" by auto
    then show "i \<in> int ` {0..<nat n}" by blast
  qed
  then show ?thesis by (auto simp: indices_def)
qed

text \<open>
  On a session that carries \<open>receivedChunks\<close> and \<open>tempDir\<close>, with every chunk file in
  place, \<open>assembleFile\<close> writes the chunks in ascending index order and succeeds when
  the length is \<open>metadata.size\<close>.
\<close>

lemma assembleFile_on_session:
  assumes "getSession w f = Some s"
    and "receivedChunks s = Some rc" and "int (length rc) = totalChunks s"
    and "tempDir s = Some dir"
    and "\<forall>i. 0 \<le> i \<and> i < totalChunks s \<longrightarrow> files w (dir, chunk_file i) = Some (chunk i)"
    and "fst finalPath \<noteq> dir"
    and "int (length (concat (map chunk (indices (totalChunks s))))) = size_md (metadata s)"
  shows "fst (assembleFile w f finalPath now)
           = Inr \<lparr>filePath = finalPath, size_res = size_md (metadata s)\<rparr>
       \<and> files (snd (assembleFile w f finalPath now)) finalPath
           = Some (concat (map chunk (indices (totalChunks s))))"
proof -
  let ?w0 = "w\<lparr>files := (files w)(finalPath \<mapsto> [])\<rparr>"
  let ?js = "indices (totalChunks s)"
  have fp: "\<forall>i \<in> set ?js. finalPath \<noteq> (dir, chunk_file i)"
    using assms(6) by auto
  have ch: "\<forall>i \<in> set ?js. files ?w0 (dir, chunk_file i) = Some (chunk i)"
    using assms(5) fp by (auto simp: indices_set)
  have f0: "files ?w0 finalPath = Some []" by simp
  obtain e w1 where l: "assemble_loop ?w0 f s finalPath now ?js = (e, w1)"
    by (cases "assemble_loop ?w0 f s finalPath now ?js")
  from assemble_loop_concat[OF assms(4) ch fp f0, of f now] l
  have r: "e = None" "files w1 finalPath = Some (concat (map chunk ?js))"
    by simp_all
  have keep: "files (completeUpload (cleanupChunks w1 s) f res now) finalPath = files w1 finalPath" for res
    using assms(4,6)
    by (simp add: completeUpload_def cleanupChunks_def Let_def split: option.splits)
  show ?thesis
    using assms(1,2,3,7) l r keep
    by (simp add: assembleFile_def Let_def)
qed

section \<open>Backoff and the retry bound\<close>

declare expo_up.simps [simp del] expo_down.simps [simp del]

lemma pow2_powi: "pow2 k = 2 powi k"
  by (simp add: pow2_def power_int_def inverse_eq_divide power_one_over)

lemma pow2_pos: "0 < pow2 k"
  by (simp add: pow2_def)

lemma pow2_add: "pow2 (a + b) = pow2 a * pow2 b"
  by (simp add: pow2_powi power_int_add)

lemma pow2_Suc: "pow2 (k + 1) = 2 * pow2 k"
  by (simp add: pow2_add) (simp add: pow2_def)

lemma pow2_mono: "a \<le> b \<Longrightarrow> pow2 a \<le> pow2 b"
  by (simp add: pow2_powi power_int_increasing)

lemma pow2_less_imp: "pow2 a < pow2 b \<Longrightarrow> a < b"
  using pow2_mono[of b a] by (cases "a < b") auto

lemma pow2_nat: "0 \<le> k \<Longrightarrow> pow2 k = 2 ^ nat k"
  by (simp add: pow2_def)

lemma pow2_neg: "k \<le> 0 \<Longrightarrow> pow2 k = 1 / 2 ^ nat (- k)"
  by (cases "k = 0") (simp_all add: pow2_def)

lemma expo_up_bounds:
  "1 \<le> x \<Longrightarrow> 0 \<le> expo_up x \<and> pow2 (expo_up x) \<le> x \<and> x < 2 * pow2 (expo_up x)"
proof (induction x rule: expo_up.induct)
  case (1 x)
  show ?case
  proof (cases "2 \<le> x")
    case True
    then have ih: "0 \<le> expo_up (x / 2) \<and> pow2 (expo_up (x / 2)) \<le> x / 2
                    \<and> x / 2 < 2 * pow2 (expo_up (x / 2))"
      using "1.IH" by simp
    have e: "expo_up x = expo_up (x / 2) + 1" using True by (subst expo_up.simps) simp
    show ?thesis using ih by (simp add: e pow2_Suc)
  next
    case False
    then have e: "expo_up x = 0" by (subst expo_up.simps) simp
    show ?thesis using False "1.prems" by (simp add: e pow2_def)
  qed
qed

lemma expo_down_bounds:
  "0 < x \<Longrightarrow> x < 1 \<Longrightarrow> pow2 (expo_down x) \<le> x \<and> x < 2 * pow2 (expo_down x)"
proof (induction x rule: expo_down.induct)
  case (1 x)
  have e: "expo_down x = expo_down (2 * x) - 1" using "1.prems" by (subst expo_down.simps) simp
  have p: "pow2 (expo_down (2 * x)) = 2 * pow2 (expo_down (2 * x) - 1)"
    using pow2_Suc[of "expo_down (2 * x) - 1"] by simp
  show ?case
  proof (cases "2 * x < 1")
    case True
    then have "pow2 (expo_down (2 * x)) \<le> 2 * x \<and> 2 * x < 2 * pow2 (expo_down (2 * x))"
      using "1.IH" "1.prems" by simp
    then show ?thesis using p by (simp add: e)
  next
    case False
    then have "expo_down (2 * x) = 0" by (subst expo_down.simps) simp
    then have "expo_down x = - 1" using e by simp
    then show ?thesis using False "1.prems" by (simp add: pow2_def)
  qed
qed

lemma expo_bounds: "0 < x \<Longrightarrow> pow2 (expo x) \<le> x \<and> x < 2 * pow2 (expo x)"
  using expo_up_bounds[of x] expo_down_bounds[of x] by (cases "1 \<le> x") (simp_all add: expo_def)

lemma expo_unique:
  assumes "0 < x" and "pow2 e \<le> x" and "x < 2 * pow2 e"
  shows "expo x = e"
proof -
  have b: "pow2 (expo x) \<le> x" "x < pow2 (expo x + 1)"
    using expo_bounds[OF assms(1)] by (simp_all add: pow2_Suc)
  have "pow2 e < pow2 (expo x + 1)" using assms(2) b(2) by linarith
  then have 1: "e < expo x + 1" by (rule pow2_less_imp)
  have "pow2 (expo x) < pow2 (e + 1)" using assms(3) b(1) by (simp add: pow2_Suc)
  then have 2: "expo x < e + 1" by (rule pow2_less_imp)
  from 1 2 show ?thesis by linarith
qed

lemma rne_le: "y \<le> of_int k \<Longrightarrow> rne y \<le> k"
proof -
  assume a: "y \<le> of_int k"
  then have f: "\<lfloor>y\<rfloor> \<le> k" by (simp add: floor_le_iff)
  show ?thesis
  proof (cases "\<lfloor>y\<rfloor> = k")
    case True
    then have "of_int k \<le> y" by (metis of_int_floor_le)
    with a have "y = of_int k" by linarith
    then show ?thesis by (simp add: rne_def)
  next
    case False
    with f have "\<lfloor>y\<rfloor> + 1 \<le> k" by linarith
    then show ?thesis by (auto simp: rne_def Let_def)
  qed
qed

lemma rne_ge: "of_int k \<le> y \<Longrightarrow> k \<le> rne y"
proof -
  assume "of_int k \<le> y"
  then have "k \<le> \<lfloor>y\<rfloor>" by (simp add: le_floor_iff)
  then show ?thesis by (auto simp: rne_def Let_def)
qed

lemma rne_int [simp]: "rne (of_int k) = k"
  by (simp add: rne_def)

lemma fl_nonneg_eq:
  "0 < x \<Longrightarrow> fl x = of_int (rne (x / pow2 (max (expo x - 52) (- 1074)))) * pow2 (max (expo x - 52) (- 1074))"
  by (simp add: fl_def Let_def)

lemma quantum_low:
  assumes "0 < x" and "x < 2 ^ 53"
  shows "max (expo x - 52) (- 1074) \<le> 0"
proof -
  have "pow2 (expo x) \<le> x" using expo_bounds[OF assms(1)] by simp
  then have "pow2 (expo x) < pow2 53" using assms(2) by (simp add: pow2_def)
  then have "expo x < 53" by (rule pow2_less_imp)
  then show ?thesis by simp
qed

lemma int_multiple:
  assumes "m \<le> 0"
  shows "of_int b = of_int (b * 2 ^ nat (- m)) * pow2 m"
  using assms by (simp add: pow2_neg)

lemma fl_le_int:
  assumes "0 < x" and "x \<le> of_int b" and "x < 2 ^ 53"
  shows "fl x \<le> of_int b"
proof -
  let ?m = "max (expo x - 52) (- 1074)"
  have m: "?m \<le> 0" using quantum_low[OF assms(1,3)] .
  have q: "0 < pow2 ?m" by (rule pow2_pos)
  have b: "of_int b = of_int (b * 2 ^ nat (- ?m)) * pow2 ?m" using int_multiple[OF m] .
  have "x / pow2 ?m \<le> of_int (b * 2 ^ nat (- ?m))"
    using assms(2) q by (subst (asm) b) (simp add: pos_divide_le_eq)
  then have "rne (x / pow2 ?m) \<le> b * 2 ^ nat (- ?m)" by (rule rne_le)
  then have "real_of_int (rne (x / pow2 ?m)) \<le> of_int (b * 2 ^ nat (- ?m))"
    by (simp only: of_int_le_iff)
  then have "of_int (rne (x / pow2 ?m)) * pow2 ?m \<le> of_int (b * 2 ^ nat (- ?m)) * pow2 ?m"
    using q by (simp only: mult_le_cancel_right) simp
  then show ?thesis by (simp only: fl_nonneg_eq[OF assms(1)] b[symmetric])
qed

lemma fl_ge_int:
  assumes "0 < x" and "of_int a \<le> x" and "x < 2 ^ 53"
  shows "of_int a \<le> fl x"
proof -
  let ?m = "max (expo x - 52) (- 1074)"
  have m: "?m \<le> 0" using quantum_low[OF assms(1,3)] .
  have q: "0 < pow2 ?m" by (rule pow2_pos)
  have b: "of_int a = of_int (a * 2 ^ nat (- ?m)) * pow2 ?m" using int_multiple[OF m] .
  have "of_int (a * 2 ^ nat (- ?m)) \<le> x / pow2 ?m"
    using assms(2) q by (subst (asm) b) (simp add: pos_le_divide_eq)
  then have "a * 2 ^ nat (- ?m) \<le> rne (x / pow2 ?m)" by (rule rne_ge)
  then have "real_of_int (a * 2 ^ nat (- ?m)) \<le> of_int (rne (x / pow2 ?m))"
    by (simp only: of_int_le_iff)
  then have "of_int (a * 2 ^ nat (- ?m)) * pow2 ?m \<le> of_int (rne (x / pow2 ?m)) * pow2 ?m"
    using q by (simp only: mult_le_cancel_right) simp
  then show ?thesis by (simp only: fl_nonneg_eq[OF assms(1)] b[symmetric])
qed

lemma fl_eval:
  assumes "0 < x" and "pow2 e \<le> x" and "x < 2 * pow2 e" and "- 1022 \<le> e"
  shows "fl x = of_int (rne (x / pow2 (e - 52))) * pow2 (e - 52)"
proof -
  have "expo x = e" using assms(1,2,3) by (rule expo_unique)
  moreover have "max (e - 52) (- 1074) = e - 52" using assms(4) by simp
  ultimately show ?thesis by (simp add: fl_nonneg_eq[OF assms(1)])
qed

lemma rne_down: "of_int f \<le> y \<Longrightarrow> y < of_int f + 1 / 2 \<Longrightarrow> rne y = f"
proof -
  assume a: "of_int f \<le> y" "y < of_int f + 1 / 2"
  then have "\<lfloor>y\<rfloor> = f" by (simp add: floor_eq_iff)
  then show ?thesis using a by (simp add: rne_def)
qed

lemma rne_up: "of_int f + 1 / 2 < y \<Longrightarrow> y < of_int f + 1 \<Longrightarrow> rne y = f + 1"
proof -
  assume a: "of_int f + 1 / 2 < y" "y < of_int f + 1"
  then have "\<lfloor>y\<rfloor> = f" by (simp add: floor_eq_iff)
  then show ?thesis using a by (simp add: rne_def)
qed

lemma jitter_value: "jitter = 3602879701896397 / 36028797018963968"
proof -
  have e: "fl (1 / 10) = of_int (rne ((1 / 10) / pow2 (- 4 - 52))) * pow2 (- 4 - 52)"
    by (rule fl_eval) (simp_all add: pow2_def)
  have r: "rne ((1 / 10) / pow2 (- 4 - 52)) = 7205759403792793 + 1"
    by (rule rne_up) (simp_all add: pow2_def)
  show ?thesis unfolding jitter_def e r by (simp add: pow2_def)
qed

lemma fl_base_power: "fl (1000 * 2 ^ k) = 1000 * 2 ^ k"
proof -
  define x :: real where "x = 1000 * 2 ^ k"
  define m where "m = int k - 43"
  have x0: "0 < x" by (simp add: x_def)
  have p: "pow2 (int k) = 2 ^ k" by (simp add: pow2_def)
  have p9: "pow2 9 = 512" by (simp add: pow2_def)
  have q43: "pow2 (- 43) = 1 / 2 ^ 43" by (simp add: pow2_def)
  have e: "expo x = int k + 9"
  proof (rule expo_unique[OF x0])
    show "pow2 (int k + 9) \<le> x" unfolding x_def by (simp only: pow2_add p p9) simp
    show "x < 2 * pow2 (int k + 9)" unfolding x_def by (simp only: pow2_add p p9) simp
  qed
  have mx: "max (expo x - 52) (- 1074) = m" by (simp add: e m_def)
  have "m = int k + (- 43)" by (simp add: m_def)
  then have "pow2 m = pow2 (int k) * pow2 (- 43)" by (simp only: pow2_add)
  then have q: "pow2 m = 2 ^ k / 2 ^ 43" by (simp only: p q43) simp
  have d: "x / pow2 m = of_int (1000 * 2 ^ 43)" unfolding q x_def by simp
  have "fl x = of_int (rne (x / pow2 m)) * pow2 m"
    using fl_nonneg_eq[OF x0] by (simp only: mx)
  also have "\<dots> = of_int (1000 * 2 ^ 43) * pow2 m"
    by (simp only: d rne_int)
  also have "\<dots> = x" unfolding q x_def by simp
  finally show ?thesis by (simp only: x_def)
qed

lemma backoffDelay_exact:
  assumes "1 \<le> n"
  shows "backoffDelay n = min (1000 * 2 ^ nat (n - 1)) 30000"
  using assms by (simp add: backoffDelay_def baseDelay_def maxDelay_def pow2_nat fl_base_power)

lemma fl_tenth_power: "fl (1000 * 2 ^ k * jitter) = 100 * 2 ^ k"
proof -
  define x :: real where "x = 1000 * 2 ^ k * jitter"
  define m where "m = int k - 46"
  have xv: "x = 2 ^ k * (3602879701896397000 / 36028797018963968)"
    by (simp add: x_def jitter_value)
  have x0: "0 < x" by (simp add: xv)
  have p: "pow2 (int k) = 2 ^ k" by (simp add: pow2_def)
  have p6: "pow2 6 = 64" by (simp add: pow2_def)
  have q46: "pow2 (- 46) = 1 / 2 ^ 46" by (simp add: pow2_def)
  have e: "expo x = int k + 6"
  proof (rule expo_unique[OF x0])
    show "pow2 (int k + 6) \<le> x" unfolding xv by (simp only: pow2_add p p6) simp
    show "x < 2 * pow2 (int k + 6)" unfolding xv by (simp only: pow2_add p p6) simp
  qed
  have mx: "max (expo x - 52) (- 1074) = m" by (simp add: e m_def)
  have "m = int k + (- 46)" by (simp add: m_def)
  then have "pow2 m = pow2 (int k) * pow2 (- 46)" by (simp only: pow2_add)
  then have q: "pow2 m = 2 ^ k / 2 ^ 46" by (simp only: p q46) simp
  have d: "x / pow2 m = 3602879701896397000 / 512" unfolding q xv by simp
  have r: "rne (3602879701896397000 / 512) = 7036874417766400"
    by (rule rne_down) simp_all
  have "fl x = of_int (rne (x / pow2 m)) * pow2 m"
    using fl_nonneg_eq[OF x0] by (simp only: mx)
  also have "\<dots> = of_int 7036874417766400 * pow2 m"
    by (simp only: d r)
  also have "\<dots> = 100 * 2 ^ k" unfolding q by simp
  finally show ?thesis by (simp only: x_def)
qed

lemma fl_tenth_cap: "fl (30000 * jitter) = 3000"
proof -
  have e: "fl (30000 * jitter) = of_int (rne ((30000 * jitter) / pow2 (11 - 52))) * pow2 (11 - 52)"
    by (rule fl_eval) (simp_all add: pow2_def jitter_value)
  have d: "(30000 * jitter) / pow2 (11 - 52) = 108086391056891910000 / 16384"
    by (simp add: jitter_value pow2_def)
  have r: "rne (108086391056891910000 / 16384) = 6597069766656000"
    by (rule rne_down) simp_all
  show ?thesis unfolding e d r by (simp add: pow2_def)
qed

lemma delay_cases:
  assumes "1 \<le> n"
  shows "(\<exists>k. backoffDelay n = 1000 * 2 ^ k \<and> fl (backoffDelay n * jitter) = 100 * 2 ^ k
             \<and> (1100 :: real) * 2 ^ k < 2 ^ 53)
       \<or> (backoffDelay n = 30000 \<and> fl (backoffDelay n * jitter) = 3000)"
proof (cases "(1000 :: real) * 2 ^ nat (n - 1) \<le> 30000")
  case True
  have k: "nat (n - 1) < 5"
  proof (rule ccontr)
    assume "\<not> nat (n - 1) < 5"
    then have "(2 :: real) ^ 5 \<le> 2 ^ nat (n - 1)" by (intro power_increasing) simp_all
    with True show False by simp
  qed
  then have "(2 :: real) ^ nat (n - 1) \<le> 2 ^ 5" by (intro power_increasing) simp_all
  then have lt: "(1100 :: real) * 2 ^ nat (n - 1) < 2 ^ 53" by simp
  have b: "backoffDelay n = 1000 * 2 ^ nat (n - 1)"
    using True by (simp add: backoffDelay_exact[OF assms])
  show ?thesis using lt by (intro disjI1 exI[of _ "nat (n - 1)"]) (simp add: b fl_tenth_power)
next
  case False
  then have b: "backoffDelay n = 30000" by (simp add: backoffDelay_exact[OF assms])
  show ?thesis by (intro disjI2) (simp add: b fl_tenth_cap)
qed

lemma fl_between:
  assumes "0 \<le> a" and "of_int a \<le> x" and "x \<le> of_int b" and "of_int b < (2 :: real) ^ 53"
  shows "of_int a \<le> fl x \<and> fl x \<le> of_int b"
proof (cases "x = 0")
  case True
  with assms show ?thesis by (simp add: fl_def)
next
  case False
  with assms(1,2) have x0: "0 < x" by (smt (verit) of_int_nonneg)
  have lt: "x < 2 ^ 53" using assms(3,4) by linarith
  show ?thesis using fl_ge_int[OF x0 assms(2) lt] fl_le_int[OF x0 assms(3) lt] by simp
qed

lemma jitter_closed:
  assumes "1 \<le> n" and "0 \<le> rnd" and "rnd < 1"
  shows "backoffDelay n \<le> real_of_int (calculateBackoffDelay n rnd)"
    and "real_of_int (calculateBackoffDelay n rnd) \<le> backoffDelay n + (1 / 10) * backoffDelay n"
proof -
  obtain D J :: int where dj: "backoffDelay n = of_int D" "fl (backoffDelay n * jitter) = of_int J"
      "0 \<le> J" "0 \<le> D" "real_of_int (D + J) < 2 ^ 53" "real_of_int J = (1 / 10) * backoffDelay n"
  proof -
    from delay_cases[OF assms(1)] show ?thesis
    proof
      assume "\<exists>k. backoffDelay n = 1000 * 2 ^ k \<and> fl (backoffDelay n * jitter) = 100 * 2 ^ k
                \<and> (1100 :: real) * 2 ^ k < 2 ^ 53"
      then obtain k where k: "backoffDelay n = 1000 * 2 ^ k"
          "fl (backoffDelay n * jitter) = 100 * 2 ^ k" "(1100 :: real) * 2 ^ k < 2 ^ 53" by blast
      show ?thesis
        by (rule that[of "1000 * 2 ^ k" "100 * 2 ^ k"]) (use k in simp_all)
    next
      assume "backoffDelay n = 30000 \<and> fl (backoffDelay n * jitter) = 3000"
      then have c: "backoffDelay n = 30000" "fl (backoffDelay n * jitter) = 3000" by blast+
      show ?thesis
        by (rule that[of 30000 3000]) (use c in simp_all)
    qed
  qed
  define j where "j = fl (of_int J * rnd)"
  have jb: "of_int 0 \<le> j \<and> j \<le> of_int J"
    unfolding j_def
  proof (rule fl_between)
    show "(0::int) \<le> 0" by simp
    show "of_int 0 \<le> real_of_int J * rnd" using dj(3) assms(2) by simp
    show "real_of_int J * rnd \<le> of_int J" using dj(3) assms(3) by (simp add: mult_left_le)
    show "real_of_int J < 2 ^ 53" using dj(4,5) by simp
  qed
  have sb: "of_int D \<le> fl (of_int D + j) \<and> fl (of_int D + j) \<le> of_int (D + J)"
  proof (rule fl_between)
    show "0 \<le> D" by (rule dj(4))
    show "of_int D \<le> real_of_int D + j" using jb by simp
    show "real_of_int D + j \<le> of_int (D + J)" using jb by simp
    show "real_of_int (D + J) < 2 ^ 53" by (rule dj(5))
  qed
  have c: "calculateBackoffDelay n rnd = \<lfloor>fl (of_int D + j)\<rfloor>"
    by (simp add: calculateBackoffDelay_def Let_def dj(1)[symmetric] dj(2) j_def)
  have "D \<le> \<lfloor>fl (of_int D + j)\<rfloor>" using sb by (simp add: le_floor_iff)
  then show "backoffDelay n \<le> real_of_int (calculateBackoffDelay n rnd)"
    by (simp add: c dj(1))
  have "\<lfloor>fl (of_int D + j)\<rfloor> \<le> D + J" using sb by (simp add: floor_le_iff)
  then have "real_of_int (calculateBackoffDelay n rnd) \<le> real_of_int (D + J)"
    by (simp only: c of_int_le_iff)
  then show "real_of_int (calculateBackoffDelay n rnd) \<le> backoffDelay n + (1 / 10) * backoffDelay n"
    using dj(1,6) by simp
qed


lemma backoffDelay_mono:
  assumes "1 \<le> n" "n \<le> m"
  shows "backoffDelay n \<le> backoffDelay m"
proof -
  have "nat (n - 1) \<le> nat (m - 1)" using assms by simp
  then have "(2::real) ^ nat (n - 1) \<le> 2 ^ nat (m - 1)"
    by (intro power_increasing) simp_all
  moreover have "1 \<le> m" using assms by simp
  ultimately show ?thesis
    using assms(1) by (simp add: backoffDelay_exact min_le_iff_disj)
qed

lemma backoffDelay_double:
  assumes "1 \<le> n"
  shows "backoffDelay (n + 1) = min (2 * backoffDelay n) maxDelay"
proof -
  have "nat n = Suc (nat (n - 1))" using assms by simp
  then have "(2::real) ^ nat n = 2 * 2 ^ nat (n - 1)" by simp
  then show ?thesis
    using assms by (simp add: backoffDelay_exact maxDelay_def min_def)
qed

text \<open>
  Claim C7, as amended. For an attempt number \<open>n\<close> of at least 1 and a draw of
  \<open>Math.random\<close> in \<open>[0, 1)\<close>, the delay before jitter is
  \<open>min(maxDelay, baseDelay * 2^(n-1))\<close> with \<open>baseDelay = 1000\<close> and
  \<open>maxDelay = 30000\<close>; \<open>calculateBackoffDelay\<close> returns it plus a jitter that is at
  least 0 and at most a tenth of it, the tenth included; from one attempt to the next
  the delay before jitter doubles, capped at \<open>maxDelay\<close>, and so it never decreases
  with the attempt number.
\<close>

theorem backoff_delay_closed:
  assumes "1 \<le> n" and "0 \<le> rnd" and "rnd < 1"
  shows "backoffDelay n = min maxDelay (baseDelay * 2 ^ nat (n - 1))
       \<and> baseDelay = 1000 \<and> maxDelay = 30000
       \<and> 0 \<le> real_of_int (calculateBackoffDelay n rnd) - backoffDelay n
       \<and> real_of_int (calculateBackoffDelay n rnd) - backoffDelay n \<le> (1 / 10) * backoffDelay n
       \<and> backoffDelay (n + 1) = min maxDelay (2 * backoffDelay n)
       \<and> (\<forall>m. n \<le> m \<longrightarrow> backoffDelay n \<le> backoffDelay m)"
proof -
  have 1: "backoffDelay n = min maxDelay (baseDelay * 2 ^ nat (n - 1))"
    using assms(1) by (simp add: backoffDelay_exact baseDelay_def maxDelay_def min.commute)
  have 2: "baseDelay = 1000 \<and> maxDelay = 30000"
    by (simp add: baseDelay_def maxDelay_def)
  have 3: "0 \<le> real_of_int (calculateBackoffDelay n rnd) - backoffDelay n"
    using jitter_closed(1)[OF assms] by simp
  have 4: "real_of_int (calculateBackoffDelay n rnd) - backoffDelay n \<le> (1 / 10) * backoffDelay n"
    using jitter_closed(2)[OF assms] by linarith
  have 5: "backoffDelay (n + 1) = min maxDelay (2 * backoffDelay n)"
    using backoffDelay_double[OF assms(1)] by (simp add: min.commute)
  have 6: "\<forall>m. n \<le> m \<longrightarrow> backoffDelay n \<le> backoffDelay m"
    using backoffDelay_mono[OF assms(1)] by blast
  from 1 2 3 4 5 6 show ?thesis by blast
qed

lemma edge_jitter: "fl (100 * last_draw) = 7036874417766399 / 70368744177664"
proof -
  have e: "fl (100 * last_draw) = of_int (rne ((100 * last_draw) / pow2 (6 - 52))) * pow2 (6 - 52)"
    by (rule fl_eval) (simp_all add: pow2_def last_draw_def)
  have d: "(100 * last_draw) / pow2 (6 - 52) = 900719925474099100 / 128"
    by (simp add: last_draw_def pow2_def)
  have r: "rne (900719925474099100 / 128) = 7036874417766399"
    by (rule rne_down) simp_all
  show ?thesis unfolding e d r by (simp add: pow2_def)
qed

lemma edge_sum: "fl (1000 + 7036874417766399 / 70368744177664) = 1100"
proof -
  have e: "fl (1000 + 7036874417766399 / 70368744177664)
             = of_int (rne ((1000 + 7036874417766399 / 70368744177664) / pow2 (10 - 52))) * pow2 (10 - 52)"
    by (rule fl_eval) (simp_all add: pow2_def)
  have d: "(1000 + 7036874417766399 / 70368744177664) / pow2 (10 - 52) = 77405618595430399 / 16"
    by (simp add: pow2_def)
  have r: "rne (77405618595430399 / 16) = 4837851162214399 + 1"
    by (rule rne_up) simp_all
  show ?thesis unfolding e d r by (simp add: pow2_def)
qed

text \<open>
  Claim C7 as stated fails at the upper end of the jitter: for the first attempt and the
  largest draw below 1, the rounded product is \<open>100 - 2^-46\<close>, the rounded sum is 1100,
  and the jitter is the whole tenth of the delay, not less.
\<close>

theorem jitter_half_open_counterexample:
  "(0 :: real) \<le> last_draw \<and> last_draw < 1
   \<and> backoffDelay 1 = 1000
   \<and> calculateBackoffDelay 1 last_draw = 1100
   \<and> \<not> real_of_int (calculateBackoffDelay 1 last_draw) - backoffDelay 1 < (1 / 10) * backoffDelay 1"
proof -
  have b: "backoffDelay 1 = 1000" by (simp add: backoffDelay_exact)
  have t: "fl (1000 * jitter) = 100" using fl_tenth_power[of 0] by simp
  have "calculateBackoffDelay 1 last_draw
          = \<lfloor>fl (1000 + fl (fl (1000 * jitter) * last_draw))\<rfloor>"
    by (simp only: calculateBackoffDelay_def Let_def b)
  also have "\<dots> = \<lfloor>fl (1000 + fl (100 * last_draw))\<rfloor>"
    by (simp only: t)
  also have "\<dots> = \<lfloor>fl (1000 + 7036874417766399 / 70368744177664)\<rfloor>"
    by (simp only: edge_jitter)
  also have "\<dots> = \<lfloor>1100 :: real\<rfloor>"
    by (simp only: edge_sum)
  also have "\<dots> = 1100" by simp
  finally have c: "calculateBackoffDelay 1 last_draw = 1100" .
  show ?thesis by (simp add: b c) (simp add: last_draw_def)
qed

theorem backoff_delay_closed_witness:
  "(1::int) \<le> 3 \<and> (0::real) \<le> 1 / 2 \<and> (1 / 2 :: real) < 1
   \<and> backoffDelay 3 = 4000
   \<and> 4000 \<le> calculateBackoffDelay 3 (1 / 2) \<and> calculateBackoffDelay 3 (1 / 2) \<le> 4400
   \<and> backoffDelay 4 = 8000 \<and> backoffDelay 6 = 30000 \<and> backoffDelay 7 = 30000"
proof -
  have e: "backoffDelay 3 = 4000" "backoffDelay 4 = 8000" "backoffDelay 6 = 30000" "backoffDelay 7 = 30000"
    by (simp_all add: backoffDelay_exact)
  have "0 \<le> real_of_int (calculateBackoffDelay 3 (1 / 2)) - 4000
        \<and> real_of_int (calculateBackoffDelay 3 (1 / 2)) - 4000 \<le> (1 / 10) * 4000"
    using backoff_delay_closed[of 3 "1 / 2"] by (simp add: e)
  then have "4000 \<le> calculateBackoffDelay 3 (1 / 2) \<and> calculateBackoffDelay 3 (1 / 2) \<le> 4400"
    by simp
  then show ?thesis using e by simp
qed

lemma cat1: "categorizeError ''disk full'' = ''storage''"
  by code_simp

lemma ret1: "isRetryableError ''disk full'' (categorizeError ''disk full'')"
  by code_simp

lemma cat2: "categorizeError ''Invalid chunk index'' = ''unknown''"
  by code_simp

lemma cat3: "categorizeError ''Permission denied'' = ''permission''"
  by code_simp

lemma handleError_cases:
  "handleError ra w f msg now rnd =
     (if \<not> isRetryableError msg (categorizeError msg) \<or> attempts_of ra f + 1 \<ge> maxRetries
      then (failure (attempts_of ra f + 1) msg
              ((case ra f of None \<Rightarrow> [] | Some ri \<Rightarrow> errorHistory ri) @
               [\<lparr>error_he = msg, type_he = categorizeError msg, timestamp_he = now\<rparr>]),
            ra(f := None),
            handleUploadError w f msg False now)
      else (retry (calculateBackoffDelay (int (attempts_of ra f + 1)) rnd) (attempts_of ra f + 1)
              maxRetries (categorizeError msg),
            ra(f \<mapsto> \<lparr>attempts = attempts_of ra f + 1,
                       startTime_ri = (case ra f of None \<Rightarrow> now | Some ri \<Rightarrow> startTime_ri ri),
                       errorHistory = (case ra f of None \<Rightarrow> [] | Some ri \<Rightarrow> errorHistory ri) @
                         [\<lparr>error_he = msg, type_he = categorizeError msg, timestamp_he = now\<rparr>],
                       lastError = Some msg, lastErrorTime = Some now\<rparr>),
            handleUploadError w f msg True now))"
  by (cases "ra f")
     (auto simp: handleError_def getRetryInfo_def handleFinalFailure_def cleanup_def Let_def
        attempts_of_def)

lemma handleError_retry:
  assumes "fst (handleError ra w f msg now rnd) = retry d n m t"
  shows "n = attempts_of ra f + 1" "n < maxRetries" "m = maxRetries"
    "attempts_of (fst (snd (handleError ra w f msg now rnd))) f = n"
  using assms by (auto simp: handleError_cases attempts_of_def split: if_splits)

lemma handleError_failure:
  assumes "fst (handleError ra w f msg now rnd) = failure n e h"
  shows "n = attempts_of ra f + 1" "fst (snd (handleError ra w f msg now rnd)) f = None"
  using assms by (auto simp: handleError_cases split: if_splits)

lemma handleError_other:
  "g \<noteq> f \<Longrightarrow> fst (snd (handleError ra w f msg now rnd)) g = ra g"
  by (simp add: handleError_cases)

lemma handleError_fresh:
  assumes "ra f = None" and "isRetryableError msg (categorizeError msg)"
  shows "is_retry (fst (handleError ra w f msg now rnd))"
  using assms by (simp add: handleError_cases attempts_of_def maxRetries_def)

lemma retries_bounded_handleError:
  assumes "retries_bounded ra"
  shows "retries_bounded (fst (snd (handleError ra w f msg now rnd)))"
  unfolding retries_bounded_def
proof (intro allI impI)
  fix g ri
  assume a: "fst (snd (handleError ra w f msg now rnd)) g = Some ri"
  show "attempts ri < maxRetries"
  proof (cases "g = f")
    case False
    with a assms show ?thesis by (simp add: handleError_other retries_bounded_def)
  next
    case True
    with a show ?thesis by (auto simp: handleError_cases split: if_splits)
  qed
qed

lemma retries_bounded_getRetryInfo:
  "retries_bounded ra \<Longrightarrow> retries_bounded (snd (getRetryInfo ra f now))"
  by (auto simp: retries_bounded_def getRetryInfo_def Let_def maxRetries_def split: option.splits if_splits)

lemma reachable_retries_bounded: "reachable_retries ra \<Longrightarrow> retries_bounded ra"
proof (induction rule: reachable_retries.induct)
  case retries_init
  show ?case by (simp add: retries_bounded_def)
next
  case (retries_handleError ra w f msg now rnd)
  then show ?case by (simp add: retries_bounded_handleError)
next
  case (retries_getRetryInfo ra f now)
  then show ?case by (simp add: retries_bounded_getRetryInfo)
qed

lemma retries_bounded_attempts_of: "retries_bounded ra \<Longrightarrow> attempts_of ra f < maxRetries"
  by (auto simp: retries_bounded_def attempts_of_def maxRetries_def split: option.splits)

lemma handleErrors_length: "length (fst (handleErrors ra w f es)) = length es"
  by (induction es arbitrary: ra w) (auto simp: case_prod_beta Let_def)

lemma retry_run_bound:
  "length (takeWhile is_retry (fst (handleErrors ra w f es))) + attempts_of ra f < maxRetries
   \<or> takeWhile is_retry (fst (handleErrors ra w f es)) = []"
proof (induction es arbitrary: ra w)
  case Nil
  then show ?case by simp
next
  case (Cons e es)
  obtain msg now rnd where e: "e = (msg, now, rnd)" by (cases e) auto
  define a where "a = fst (handleError ra w f msg now rnd)"
  define ra1 where "ra1 = fst (snd (handleError ra w f msg now rnd))"
  define w1 where "w1 = snd (snd (handleError ra w f msg now rnd))"
  have unf: "fst (handleErrors ra w f (e # es)) = a # fst (handleErrors ra1 w1 f es)"
    by (simp add: e a_def ra1_def w1_def case_prod_beta Let_def)
  show ?case
  proof (cases a)
    case (failure n er h)
    then show ?thesis by (simp add: unf)
  next
    case (retry d n m t)
    then have r: "fst (handleError ra w f msg now rnd) = retry d n m t" by (simp add: a_def)
    have n: "attempts_of ra1 f = attempts_of ra f + 1" "attempts_of ra f + 1 < maxRetries"
      using handleError_retry[OF r] by (simp_all add: ra1_def)
    from Cons.IH[of ra1 w1] n retry show ?thesis
      by (auto simp: unf)
  qed
qed

lemma retry_run_short:
  "length (takeWhile is_retry (fst (handleErrors ra w f es))) < maxRetries"
  using retry_run_bound[of ra w f es] by (auto simp: maxRetries_def)

lemma failure_within:
  assumes "maxRetries \<le> length es"
  shows "\<exists>a \<in> set (take maxRetries (fst (handleErrors ra w f es))). \<not> is_retry a"
proof (rule ccontr)
  assume "\<not> ?thesis"
  then have all: "\<forall>a \<in> set (take maxRetries (fst (handleErrors ra w f es))). is_retry a" by blast
  let ?as = "fst (handleErrors ra w f es)"
  have t: "takeWhile is_retry (take maxRetries ?as) = take maxRetries ?as"
    using all by (simp add: takeWhile_eq_all_conv)
  have "takeWhile is_retry (take maxRetries ?as @ drop maxRetries ?as)
               = take maxRetries ?as @ takeWhile is_retry (drop maxRetries ?as)"
    using all by (intro takeWhile_append2) simp
  then have "takeWhile is_retry ?as
               = take maxRetries ?as @ takeWhile is_retry (drop maxRetries ?as)"
    by (simp only: append_take_drop_id)
  then have "length (takeWhile is_retry ?as)
               = length (take maxRetries ?as) + length (takeWhile is_retry (drop maxRetries ?as))"
    by (simp only: length_append)
  then have le: "length (take maxRetries ?as) \<le> length (takeWhile is_retry ?as)"
    by linarith
  have len: "length (take maxRetries ?as) = maxRetries"
    using assms by (simp add: handleErrors_length)
  from le len have "maxRetries \<le> length (takeWhile is_retry ?as)" by (simp only:)
  with retry_run_short[of ra w f es] show False by linarith
qed

lemma disk_full_retryable: "isRetryableError ''disk full'' (categorizeError ''disk full'')"
  by code_simp

lemma handleError_disk_full:
  "handleError ra w f ''disk full'' now rnd =
     (if attempts_of ra f + 1 \<ge> maxRetries
      then (failure (attempts_of ra f + 1) ''disk full''
              ((case ra f of None \<Rightarrow> [] | Some ri \<Rightarrow> errorHistory ri) @
               [\<lparr>error_he = ''disk full'', type_he = categorizeError ''disk full'', timestamp_he = now\<rparr>]),
            ra(f := None),
            handleUploadError w f ''disk full'' False now)
      else (retry (calculateBackoffDelay (int (attempts_of ra f + 1)) rnd) (attempts_of ra f + 1)
              maxRetries (categorizeError ''disk full''),
            ra(f \<mapsto> \<lparr>attempts = attempts_of ra f + 1,
                       startTime_ri = (case ra f of None \<Rightarrow> now | Some ri \<Rightarrow> startTime_ri ri),
                       errorHistory = (case ra f of None \<Rightarrow> [] | Some ri \<Rightarrow> errorHistory ri) @
                         [\<lparr>error_he = ''disk full'', type_he = categorizeError ''disk full'', timestamp_he = now\<rparr>],
                       lastError = Some ''disk full'', lastErrorTime = Some now\<rparr>),
            handleUploadError w f ''disk full'' True now))"
  using disk_full_retryable by (simp add: handleError_cases)

text \<open>
  Claim C6 as stated fails in its last part: of four retryable errors for one file, with
  no session created in between, the third is answered with the failure and the fourth
  with a retry again.
\<close>

theorem retry_after_failure_counterexample:
  "map is_retry (fst (handleErrors Map.empty empty_world ''f1'' disk_errors))
     = [True, True, False, True]
   \<and> uploadSessions (snd (snd (handleErrors Map.empty empty_world ''f1'' disk_errors))) = Map.empty"
  by (simp add: disk_errors_def handleError_disk_full attempts_of_def maxRetries_def
        handleUploadError_def empty_world_def)

text \<open>
  Claim C6, as amended. In every retry map the manager reaches, the attempts counter
  of a file is below \<open>maxRetries = 3\<close>, and the number an action reports is at most 3;
  a run of \<open>handleError\<close> calls for one file yields fewer than \<open>maxRetries\<close> retry
  actions before a failure, and a failure within the first \<open>maxRetries\<close> calls. The
  failure deletes the retry record of the file, so the next retryable error for the
  file counts from zero and is answered with a retry.
\<close>

theorem retry_bound:
  assumes "reachable_retries ra"
  shows "maxRetries = 3
       \<and> (\<forall>ri. ra f = Some ri \<longrightarrow> attempts ri < maxRetries)
       \<and> (\<forall>n e h. fst (handleError ra w f msg now rnd) = failure n e h \<longrightarrow> n \<le> maxRetries)
       \<and> (\<forall>d n m t. fst (handleError ra w f msg now rnd) = retry d n m t \<longrightarrow>
             n < maxRetries \<and> m = maxRetries)
       \<and> length (takeWhile is_retry (fst (handleErrors ra w f es))) < maxRetries
       \<and> (maxRetries \<le> length es \<longrightarrow>
             (\<exists>a \<in> set (take maxRetries (fst (handleErrors ra w f es))). \<not> is_retry a))
       \<and> (\<forall>n e h. fst (handleError ra w f msg now rnd) = failure n e h \<longrightarrow>
             fst (snd (handleError ra w f msg now rnd)) f = None
             \<and> (isRetryableError msg' (categorizeError msg') \<longrightarrow>
                  is_retry (fst (handleError (fst (snd (handleError ra w f msg now rnd))) w' f
                                   msg' now' rnd'))))"
proof -
  have b: "retries_bounded ra" using assms by (rule reachable_retries_bounded)
  have 1: "maxRetries = 3" by (simp add: maxRetries_def)
  have 2: "\<forall>ri. ra f = Some ri \<longrightarrow> attempts ri < maxRetries"
    using b by (simp add: retries_bounded_def)
  have 3: "\<forall>n e h. fst (handleError ra w f msg now rnd) = failure n e h \<longrightarrow> n \<le> maxRetries"
    using handleError_failure(1) retries_bounded_attempts_of[OF b, of f] by fastforce
  have 4: "\<forall>d n m t. fst (handleError ra w f msg now rnd) = retry d n m t \<longrightarrow>
             n < maxRetries \<and> m = maxRetries"
    using handleError_retry(2,3) by blast
  have 5: "length (takeWhile is_retry (fst (handleErrors ra w f es))) < maxRetries"
    by (rule retry_run_short)
  have 6: "maxRetries \<le> length es \<longrightarrow>
             (\<exists>a \<in> set (take maxRetries (fst (handleErrors ra w f es))). \<not> is_retry a)"
    using failure_within by blast
  have 7: "\<forall>n e h. fst (handleError ra w f msg now rnd) = failure n e h \<longrightarrow>
             fst (snd (handleError ra w f msg now rnd)) f = None
             \<and> (isRetryableError msg' (categorizeError msg') \<longrightarrow>
                  is_retry (fst (handleError (fst (snd (handleError ra w f msg now rnd))) w' f
                                   msg' now' rnd')))"
    using handleError_failure(2) handleError_fresh by blast
  from 1 2 3 4 5 6 7 show ?thesis by blast
qed

theorem retry_bound_witness:
  "reachable_retries one_error
   \<and> attempts_of one_error ''f1'' = 1
   \<and> map is_retry (fst (handleErrors one_error empty_world ''f1'' (tl disk_errors)))
       = [True, False, True]
   \<and> (3::nat) \<le> length (tl disk_errors)
   \<and> length (takeWhile is_retry (fst (handleErrors one_error empty_world ''f1'' (tl disk_errors)))) < 3
   \<and> reachable_retries two_errors
   \<and> attempts_of two_errors ''f1'' = 2
   \<and> \<not> is_retry (fst (handleError two_errors empty_world ''f1'' ''disk full'' 3 0))
   \<and> fst (snd (handleError two_errors empty_world ''f1'' ''disk full'' 3 0)) ''f1'' = None
   \<and> isRetryableError ''disk full'' (categorizeError ''disk full'')
   \<and> is_retry (fst (handleError (fst (snd (handleError two_errors empty_world ''f1'' ''disk full'' 3 0)))
                        empty_world ''f1'' ''disk full'' 4 0))"
proof -
  have r: "reachable_retries one_error"
    unfolding one_error_def by (intro reachable_retries.intros)
  have r2: "reachable_retries two_errors"
    unfolding two_errors_def by (intro reachable_retries.intros r)
  have a: "attempts_of one_error ''f1'' = 1"
    by (simp add: one_error_def handleError_disk_full attempts_of_def maxRetries_def)
  have a2: "attempts_of two_errors ''f1'' = 2"
    by (simp add: two_errors_def one_error_def handleError_disk_full attempts_of_def maxRetries_def)
  have m: "map is_retry (fst (handleErrors one_error empty_world ''f1'' (tl disk_errors)))
       = [True, False, True]"
    by (simp add: one_error_def disk_errors_def handleError_disk_full attempts_of_def maxRetries_def
        handleUploadError_def empty_world_def)
  have l: "(3::nat) \<le> length (tl disk_errors)"
    by (simp add: disk_errors_def)
  have t: "length (takeWhile is_retry (fst (handleErrors one_error empty_world ''f1'' (tl disk_errors)))) < 3"
    using retry_bound[OF r, where f = "''f1''" and w = empty_world and es = "tl disk_errors"]
    by (simp only: maxRetries_def)
  have f3: "fst (handleError two_errors empty_world ''f1'' ''disk full'' 3 0)
              = failure 3 ''disk full''
                  ((case two_errors ''f1'' of None \<Rightarrow> [] | Some ri \<Rightarrow> errorHistory ri) @
                   [\<lparr>error_he = ''disk full'', type_he = categorizeError ''disk full'', timestamp_he = 3\<rparr>])"
    by (simp add: handleError_disk_full a2 maxRetries_def)
  have nr: "\<not> is_retry (fst (handleError two_errors empty_world ''f1'' ''disk full'' 3 0))"
    by (simp add: f3)
  have g: "fst (snd (handleError two_errors empty_world ''f1'' ''disk full'' 3 0)) ''f1'' = None
           \<and> is_retry (fst (handleError (fst (snd (handleError two_errors empty_world ''f1'' ''disk full'' 3 0)))
                        empty_world ''f1'' ''disk full'' 4 0))"
    using retry_bound[OF r2, where f = "''f1''" and w = empty_world and msg = "''disk full''"
        and now = 3 and rnd = 0 and msg' = "''disk full''" and w' = empty_world and now' = 4 and rnd' = 0]
      f3 disk_full_retryable
    by blast
  from r a m l t r2 a2 nr g disk_full_retryable show ?thesis by (simp only: simp_thms)
qed

section \<open>The progress the pipeline sends\<close>

lemma weigh_sums:
  "weigh ss (t, c) = (t + sum_list (map weight ss), c + sum_list (map contribution ss))"
  by (induction ss arbitrary: t c) (auto simp: contribution_def)

lemma updateOverallProgress_aggregate:
  "overallProgress (updateOverallProgress p) = aggregate (stages p)"
  by (simp add: updateOverallProgress_def weigh_sums aggregate_def)

lemma stages_updateOverallProgress [simp]: "stages (updateOverallProgress p) = stages p"
  by (simp add: updateOverallProgress_def weigh_sums)

lemma errors_updateOverallProgress [simp]: "errors_pl (updateOverallProgress p) = errors_pl p"
  by (simp add: updateOverallProgress_def weigh_sums)

lemma weights_update_first:
  "(\<And>s. weight (g s) = weight s) \<Longrightarrow>
     sum_list (map weight (update_first n g ss)) = sum_list (map weight ss)"
  by (induction ss) auto

lemma contributions_update_first:
  "find_stage n ss = Some st \<Longrightarrow>
     sum_list (map contribution (update_first n g ss))
       = sum_list (map contribution ss) - contribution st + contribution (g st)"
  by (induction ss) (auto simp: find_stage_def)

lemma find_stage_in: "find_stage n ss = Some st \<Longrightarrow> st \<in> set ss"
  by (induction ss) (auto simp: find_stage_def split: if_splits)

lemma list_all_update_first:
  "list_all P ss \<Longrightarrow> (\<And>s. P s \<Longrightarrow> P (g s)) \<Longrightarrow> list_all P (update_first n g ss)"
  by (induction ss) auto

lemma aggregate_update_first:
  assumes "find_stage n ss = Some st"
    and "\<And>s. weight (g s) = weight s"
    and "contribution st \<le> contribution (g st)"
  shows "aggregate ss \<le> aggregate (update_first n g ss)"
proof -
  have w: "sum_list (map weight (update_first n g ss)) = sum_list (map weight ss)"
    using assms(2) by (rule weights_update_first)
  have c: "sum_list (map contribution ss) \<le> sum_list (map contribution (update_first n g ss))"
    using contributions_update_first[OF assms(1), of g] assms(3) by linarith
  show ?thesis
    unfolding aggregate_def w
    using c by (auto intro: divide_right_mono)
qed

lemma wf_pipeline_stage:
  "wf_pipeline p \<Longrightarrow> find_stage n (stages p) = Some st \<Longrightarrow>
     0 < weight st \<and> 0 \<le> progress_st st \<and> progress_st st \<le> 1"
  using find_stage_in by (fastforce simp: wf_pipeline_def list_all_iff)

lemma contribution_le_weight:
  "0 < weight st \<Longrightarrow> 0 \<le> progress_st st \<Longrightarrow> progress_st st \<le> 1 \<Longrightarrow> contribution st \<le> weight st"
  by (auto simp: contribution_def mult_left_le)

lemma completeStage_monotone:
  assumes "wf_pipeline p" and "completeStage_pl p n now = Some p'"
  shows "overallProgress p \<le> overallProgress p'" and "wf_pipeline p'"
proof -
  from assms(2) obtain st where st: "find_stage n (stages p) = Some st"
    by (auto simp: completeStage_pl_def split: option.splits)
  let ?g = "\<lambda>s. s\<lparr>status_st := completed, endTime_st := Some now,
                     duration_st := Some (int now - (case startTime_st st of None \<Rightarrow> 0 | Some t \<Rightarrow> int t)),
                     progress_st := 1\<rparr>"
  have p': "stages p' = update_first n ?g (stages p)" "overallProgress p' = aggregate (stages p')"
    using assms(2) st by (auto simp: completeStage_pl_def Let_def updateOverallProgress_aggregate)
  have ok: "0 < weight st \<and> 0 \<le> progress_st st \<and> progress_st st \<le> 1"
    using wf_pipeline_stage[OF assms(1) st] .
  have "contribution st \<le> contribution (?g st)"
    using contribution_le_weight ok by (simp add: contribution_def)
  then have "aggregate (stages p) \<le> aggregate (update_first n ?g (stages p))"
    by (intro aggregate_update_first[OF st]) simp_all
  then show "overallProgress p \<le> overallProgress p'"
    using assms(1) p' by (simp add: wf_pipeline_def)
  have "list_all (\<lambda>s. 0 < weight s \<and> 0 \<le> progress_st s \<and> progress_st s \<le> 1) (stages p')"
    unfolding p'(1) using assms(1)
    by (intro list_all_update_first) (simp_all add: wf_pipeline_def)
  then show "wf_pipeline p'" using p'(2) by (simp add: wf_pipeline_def)
qed

lemma updateStageProgress_monotone:
  assumes "wf_pipeline p" and "updateStageProgress_pl p n x = Some p'"
  shows "wf_pipeline p'"
    and "find_stage n (stages p) = Some st \<Longrightarrow> progress_st st \<le> min 1 (max 0 x)
           \<Longrightarrow> overallProgress p \<le> overallProgress p'"
proof -
  from assms(2) obtain st0 where st0: "find_stage n (stages p) = Some st0" "status_st st0 = running"
    by (auto simp: updateStageProgress_pl_def split: option.splits if_splits)
  let ?g = "\<lambda>s. s\<lparr>progress_st := min 1 (max 0 x)\<rparr>"
  have p': "stages p' = update_first n ?g (stages p)" "overallProgress p' = aggregate (stages p')"
    using assms(2) st0 by (auto simp: updateStageProgress_pl_def Let_def updateOverallProgress_aggregate)
  have "list_all (\<lambda>s. 0 < weight s \<and> 0 \<le> progress_st s \<and> progress_st s \<le> 1) (stages p')"
    unfolding p'(1) using assms(1)
    by (intro list_all_update_first) (simp_all add: wf_pipeline_def)
  then show "wf_pipeline p'" using p'(2) by (simp add: wf_pipeline_def)
  assume a: "find_stage n (stages p) = Some st" "progress_st st \<le> min 1 (max 0 x)"
  with st0 have eq: "st = st0" by simp
  have ok: "0 < weight st" using wf_pipeline_stage[OF assms(1) a(1)] by simp
  have "contribution st \<le> contribution (?g st)"
    using a(2) ok st0(2) eq by (simp add: contribution_def)
  then have "aggregate (stages p) \<le> aggregate (update_first n ?g (stages p))"
    by (intro aggregate_update_first[OF a(1)]) simp_all
  then show "overallProgress p \<le> overallProgress p'"
    using assms(1) p' by (simp add: wf_pipeline_def)
qed

lemma startStage_monotone:
  assumes "wf_pipeline p" and "startStage_pl p n now = Some p'"
  shows "wf_pipeline p'"
    and "find_stage n (stages p) = Some st \<Longrightarrow> contribution st = 0
           \<Longrightarrow> overallProgress p \<le> overallProgress p'"
proof -
  let ?g = "\<lambda>s. s\<lparr>status_st := running, startTime_st := Some now, progress_st := 0\<rparr>"
  have p': "stages p' = update_first n ?g (stages p)" "overallProgress p' = aggregate (stages p')"
    using assms(2)
    by (auto simp: startStage_pl_def Let_def updateOverallProgress_aggregate split: option.splits)
  have "list_all (\<lambda>s. 0 < weight s \<and> 0 \<le> progress_st s \<and> progress_st s \<le> 1) (stages p')"
    unfolding p'(1) using assms(1)
    by (intro list_all_update_first) (simp_all add: wf_pipeline_def)
  then show "wf_pipeline p'" using p'(2) by (simp add: wf_pipeline_def)
  assume a: "find_stage n (stages p) = Some st" "contribution st = 0"
  have "contribution st \<le> contribution (?g st)"
    using a(2) by (simp add: contribution_def)
  then have "aggregate (stages p) \<le> aggregate (update_first n ?g (stages p))"
    by (intro aggregate_update_first[OF a(1)]) simp_all
  then show "overallProgress p \<le> overallProgress p'"
    using assms(1) p' by (simp add: wf_pipeline_def)
qed

lemma stages_table_positive: "map_of stages_table n = Some (wt, d) \<Longrightarrow> 0 < wt"
  by (simp add: stages_table_def split: if_splits)

lemma built_weight:
  "0 < (case map_of stages_table n of
          Some (wt, d) \<Rightarrow> (if wt = 0 then 1 / 10 else wt)
        | None \<Rightarrow> (1 / 10 :: real))"
proof (cases "map_of stages_table n")
  case None
  then show ?thesis by simp
next
  case (Some a)
  obtain wt d where a: "a = (wt, d)" by (cases a)
  with Some have "0 < wt" using stages_table_positive by simp
  with Some a show ?thesis by simp
qed

lemma buildStageList_ok:
  "list_all (\<lambda>s. 0 < weight s \<and> 0 \<le> progress_st s \<and> progress_st s \<le> 1) (buildStageList req)"
  unfolding buildStageList_def list_all_iff
proof
  fix s
  assume "s \<in> set (map (\<lambda>stageName.
            \<lparr>name_st = stageName,
             weight = (case map_of stages_table stageName of
                         Some (wt, d) \<Rightarrow> (if wt = 0 then 1 / 10 else wt)
                       | None \<Rightarrow> 1 / 10),
             description = (case map_of stages_table stageName of
                              Some (wt, d) \<Rightarrow> (if d = [] then stageName else d)
                            | None \<Rightarrow> stageName),
             status_st = pending, startTime_st = None, endTime_st = None,
             duration_st = None, progress_st = 0, error_st = None\<rparr>)
         ([''upload'', ''validation'', ''processing''] @ req @ [''storage'', ''cleanup'']))"
  then obtain n where "weight s = (case map_of stages_table n of
                         Some (wt, d) \<Rightarrow> (if wt = 0 then 1 / 10 else wt)
                       | None \<Rightarrow> 1 / 10)" "progress_st s = 0"
    by (auto simp only: set_map image_iff pstage.simps)
  then show "0 < weight s \<and> 0 \<le> progress_st s \<and> progress_st s \<le> 1"
    using built_weight[of n] by simp
qed

lemma buildStageList_pending: "s \<in> set (buildStageList req) \<Longrightarrow> contribution s = 0"
proof -
  assume "s \<in> set (buildStageList req)"
  then have "status_st s = pending"
    unfolding buildStageList_def by (auto simp only: set_map image_iff pstage.simps)
  then show ?thesis by (simp add: contribution_def)
qed

lemma aggregate_pending: "(\<And>s. s \<in> set ss \<Longrightarrow> contribution s = 0) \<Longrightarrow> aggregate ss = 0"
proof -
  assume a: "\<And>s. s \<in> set ss \<Longrightarrow> contribution s = 0"
  then have "map contribution ss = map (\<lambda>s. 0) ss" by simp
  then have "sum_list (map contribution ss) = 0" by (simp only: sum_list_0)
  then show ?thesis by (simp add: aggregate_def)
qed

lemma initializePipeline_wf:
  assumes "fst (initializePipeline ps w f u md req now) f = Some p"
  shows "wf_pipeline p"
proof -
  have p: "stages p = buildStageList req" "overallProgress p = 0"
    using assms by (auto simp: initializePipeline_def)
  have "aggregate (buildStageList req) = 0"
    by (rule aggregate_pending) (rule buildStageList_pending)
  then show ?thesis
    using buildStageList_ok[of req] by (simp add: wf_pipeline_def p)
qed

lemma example_pipeline_eq:
  "fst (initializePipeline Map.empty example_world ''f1'' ''bob'' (example_md 3145728) [] 1) ''f1''
     = Some example_pipeline"
  by (simp add: example_pipeline_def initializePipeline_def)

lemma example_stages:
  "stages example_pipeline = buildStageList []"
  by (simp add: example_pipeline_def initializePipeline_def)

lemma startStage_pl_result:
  assumes "startStage_pl p n now = Some p'"
  shows "stages p' = update_first n
           (\<lambda>s. s\<lparr>status_st := running, startTime_st := Some now, progress_st := 0\<rparr>) (stages p)"
    and "overallProgress p' = aggregate (stages p')"
    and "errors_pl p' = errors_pl p"
  using assms
  by (auto simp: startStage_pl_def updateOverallProgress_aggregate split: option.splits)

lemma updateStageProgress_pl_result:
  assumes "updateStageProgress_pl p n x = Some p'"
  shows "stages p' = update_first n (\<lambda>s. s\<lparr>progress_st := min 1 (max 0 x)\<rparr>) (stages p)"
    and "overallProgress p' = aggregate (stages p')"
    and "errors_pl p' = errors_pl p"
  using assms
  by (auto simp: updateStageProgress_pl_def updateOverallProgress_aggregate split: option.splits if_splits)

lemma completeStage_pl_result:
  assumes "completeStage_pl p n now = Some p'"
  shows "\<exists>d. stages p' = update_first n
           (\<lambda>s. s\<lparr>status_st := completed, endTime_st := Some now, duration_st := Some d,
                   progress_st := 1\<rparr>) (stages p)"
    and "overallProgress p' = aggregate (stages p')"
    and "errors_pl p' = errors_pl p"
  using assms
  by (auto simp: completeStage_pl_def Let_def updateOverallProgress_aggregate split: option.splits)

lemma example_errors: "errors_pl example_pipeline = []"
  by (simp add: example_pipeline_def initializePipeline_def)

lemma built_default:
  "buildStageList [] =
     [mk_stage ''upload'' (1 / 10) ''File upload'',
      mk_stage ''validation'' (5 / 100) ''File validation'',
      mk_stage ''processing'' (3 / 10) ''File processing'',
      mk_stage ''storage'' (5 / 100) ''Storage save'',
      mk_stage ''cleanup'' (5 / 100) ''Cleanup'']"
  by (simp add: buildStageList_def stages_table_def mk_stage_def)

lemma started_eq: "startStage_pl example_pipeline ''upload'' 2 = Some pipeline_started"
  by (simp add: pipeline_started_def startStage_pl_def example_stages built_default mk_stage_def
        find_stage_def)

lemmas started = startStage_pl_result[OF started_eq]

lemma started_stages:
  "stages pipeline_started =
     [(mk_stage ''upload'' (1 / 10) ''File upload'')
        \<lparr>status_st := running, startTime_st := Some 2, progress_st := 0\<rparr>,
      mk_stage ''validation'' (5 / 100) ''File validation'',
      mk_stage ''processing'' (3 / 10) ''File processing'',
      mk_stage ''storage'' (5 / 100) ''Storage save'',
      mk_stage ''cleanup'' (5 / 100) ''Cleanup'']"
  by (simp add: started(1) example_stages built_default) (simp add: mk_stage_def)

lemma half_eq: "updateStageProgress_pl pipeline_started ''upload'' (1 / 2) = Some pipeline_half"
  by (simp add: pipeline_half_def updateStageProgress_pl_def started_stages find_stage_def)
     (simp add: mk_stage_def)

lemmas half = updateStageProgress_pl_result[OF half_eq]

lemma half_stages:
  "stages pipeline_half =
     [(mk_stage ''upload'' (1 / 10) ''File upload'')
        \<lparr>status_st := running, startTime_st := Some 2, progress_st := 1 / 2\<rparr>,
      mk_stage ''validation'' (5 / 100) ''File validation'',
      mk_stage ''processing'' (3 / 10) ''File processing'',
      mk_stage ''storage'' (5 / 100) ''Storage save'',
      mk_stage ''cleanup'' (5 / 100) ''Cleanup'']"
  by (simp add: half(1) started_stages) (simp add: mk_stage_def)

lemma half_progress: "overallProgress pipeline_half = 1 / 11"
  by (simp add: half(2) half_stages aggregate_def contribution_def mk_stage_def)

lemma fifth_eq: "updateStageProgress_pl pipeline_half ''upload'' (1 / 5) = Some pipeline_fifth"
  by (simp add: pipeline_fifth_def updateStageProgress_pl_def half_stages find_stage_def)
     (simp add: mk_stage_def)

lemmas fifth = updateStageProgress_pl_result[OF fifth_eq]

lemma fifth_progress: "overallProgress pipeline_fifth = 2 / 55"
  by (simp add: fifth(1,2) half_stages aggregate_def contribution_def mk_stage_def)

lemma fifth_errors: "errors_pl pipeline_fifth = []"
  by (simp add: fifth(3) half(3) started(3) example_errors)

lemma done_eq: "completeStage_pl pipeline_half ''upload'' 5 = Some pipeline_done"
  by (simp add: pipeline_done_def completeStage_pl_def half_stages find_stage_def)
     (simp add: mk_stage_def)

lemma completeStage_pl_stages:
  assumes "completeStage_pl p n now = Some p'" and "find_stage n (stages p) = Some st"
  shows "stages p' = update_first n
           (\<lambda>s. s\<lparr>status_st := completed, endTime_st := Some now,
                   duration_st := Some (int now - (case startTime_st st of None \<Rightarrow> 0 | Some t \<Rightarrow> int t)),
                   progress_st := 1\<rparr>) (stages p)"
  using assms by (auto simp: completeStage_pl_def Let_def)

lemma half_upload:
  "find_stage ''upload'' (stages pipeline_half) =
     Some ((mk_stage ''upload'' (1 / 10) ''File upload'')
        \<lparr>status_st := running, startTime_st := Some 2, progress_st := 1 / 2\<rparr>)"
  by (simp add: half_stages find_stage_def) (simp add: mk_stage_def)

lemma done_stages:
  "stages pipeline_done =
     [(mk_stage ''upload'' (1 / 10) ''File upload'')
        \<lparr>status_st := completed, startTime_st := Some 2, progress_st := 1,
         endTime_st := Some 5, duration_st := Some 3\<rparr>,
      mk_stage ''validation'' (5 / 100) ''File validation'',
      mk_stage ''processing'' (3 / 10) ''File processing'',
      mk_stage ''storage'' (5 / 100) ''Storage save'',
      mk_stage ''cleanup'' (5 / 100) ''Cleanup'']"
  by (simp add: completeStage_pl_stages[OF done_eq half_upload] half_stages) (simp add: mk_stage_def)

lemma done_progress: "overallProgress pipeline_done = 2 / 11"
  by (simp add: completeStage_pl_result(2)[OF done_eq] done_stages aggregate_def contribution_def
        mk_stage_def)

lemma again_eq: "startStage_pl pipeline_done ''upload'' 6 = Some pipeline_again"
  by (simp add: pipeline_again_def startStage_pl_def done_stages find_stage_def)
     (simp add: mk_stage_def)

lemma again_progress: "overallProgress pipeline_again = 0"
  by (simp add: startStage_pl_result(1,2)[OF again_eq] done_stages aggregate_def contribution_def
        mk_stage_def)

lemma again_errors: "errors_pl pipeline_again = []"
  by (simp add: startStage_pl_result(3)[OF again_eq] completeStage_pl_result(3)[OF done_eq]
        half(3) started(3) example_errors)

lemma example_wf: "wf_pipeline example_pipeline"
  using initializePipeline_wf[OF example_pipeline_eq] .

lemma started_wf: "wf_pipeline pipeline_started"
  using startStage_monotone(1)[OF example_wf started_eq] .

lemma half_wf: "wf_pipeline pipeline_half"
  using updateStageProgress_monotone(1)[OF started_wf half_eq] .

lemma world_half_eq:
  "world_half = updateProgress example_world ''f1'' (Num (1 / 11)) ''upload'' 3"
  by (simp add: world_half_def updateStageProgress_def emit_pl_def half_eq half_progress)

lemma world_fifth_eq:
  "world_fifth = updateProgress world_half ''f1'' (Num (2 / 55)) ''upload'' 4"
  by (simp add: world_fifth_def updateStageProgress_def emit_pl_def fifth_eq fifth_progress)

lemma world_fifth_sent:
  "sent_to world_fifth 1 =
     [upload_started ''f1'' ((example_md 3145728)\<lparr>totalChunks_md := Some 3, chunkSize_md := Some 1048576\<rparr>),
      upload_progress ''f1'' (Num (1 / 11)) ''upload'' 3,
      upload_progress ''f1'' (Num (2 / 55)) ''upload'' 4]"
  by (simp add: world_fifth_eq world_half_eq example_world_def two_users_def
        initializeChunkedUpload_def Let_def example_md_def
        chunkSize_def maxChunks_def startUploadSession_def broadcastToUser_def handleConnection_def
        empty_world_def set_add_def set_delete_def updateProgress_def sent_to_def)

text \<open>
  Claim C5 as stated fails: with no error recorded, \<open>updateStageProgress\<close> with one
  fifth after one half sends an \<open>overallProgress\<close> of 2/55 after 1/11 (the owner's socket
  receives both, in this order), and \<open>startStage\<close> on the completed stage sends 0 after
  2/11. No maximum with the value sent before is taken.
\<close>

theorem progress_decreases_counterexample:
  "updateStageProgress_pl pipeline_started ''upload'' (1 / 2) = Some pipeline_half
   \<and> overallProgress pipeline_half = 1 / 11
   \<and> updateStageProgress_pl pipeline_half ''upload'' (1 / 5) = Some pipeline_fifth
   \<and> overallProgress pipeline_fifth = 2 / 55
   \<and> overallProgress pipeline_fifth < overallProgress pipeline_half
   \<and> errors_pl pipeline_fifth = []
   \<and> sent_to world_fifth 1 =
       [upload_started ''f1'' ((example_md 3145728)\<lparr>totalChunks_md := Some 3, chunkSize_md := Some 1048576\<rparr>),
        upload_progress ''f1'' (Num (1 / 11)) ''upload'' 3,
        upload_progress ''f1'' (Num (2 / 55)) ''upload'' 4]
   \<and> completeStage_pl pipeline_half ''upload'' 5 = Some pipeline_done
   \<and> overallProgress pipeline_done = 2 / 11
   \<and> startStage_pl pipeline_done ''upload'' 6 = Some pipeline_again
   \<and> overallProgress pipeline_again = 0
   \<and> overallProgress pipeline_again < overallProgress pipeline_done
   \<and> errors_pl pipeline_again = []"
proof -
  have lt1: "(2 / 55 :: real) < 1 / 11" by simp
  have lt2: "(0 :: real) < 2 / 11" by simp
  show ?thesis
    by (simp only: half_eq half_progress fifth_eq fifth_progress fifth_errors world_fifth_sent
          done_eq done_progress again_eq again_progress again_errors lt1 lt2 simp_thms)
qed

lemma manager_emits:
  assumes "ps f = Some p"
  shows "startStage ps w f n now =
           (case startStage_pl p n now of
              None \<Rightarrow> (ps, w)
            | Some p' \<Rightarrow> (ps(f \<mapsto> p'), updateProgress w f (Num (overallProgress p')) n now))"
    and "updateStageProgress ps w f n x now =
           (case updateStageProgress_pl p n x of
              None \<Rightarrow> (ps, w)
            | Some p' \<Rightarrow> (ps(f \<mapsto> p'), updateProgress w f (Num (overallProgress p')) n now))"
    and "completeStage ps w f n now =
           (case completeStage_pl p n now of
              None \<Rightarrow> (ps, w)
            | Some p' \<Rightarrow> (ps(f \<mapsto> p'), updateProgress w f (Num (overallProgress p')) n now))"
  using assms by (simp_all add: startStage_def updateStageProgress_def completeStage_def emit_pl_def)

text \<open>
  Claim C5, as amended. \<open>startStage\<close>, \<open>updateStageProgress\<close> and \<open>completeStage\<close> send
  the weighted aggregate recomputed from the stage list, not its maximum with the value
  sent before. While no stage has failed, the value sent does not decrease across
  \<open>completeStage\<close>, across \<open>updateStageProgress\<close> with a clamped value not below the
  progress the stage has, and across \<open>startStage\<close> of a stage that contributes nothing
  (pending, or running at progress 0).
\<close>

theorem progress_recomputed:
  assumes "wf_pipeline p"
  shows "(\<forall>p'. completeStage_pl p n now = Some p' \<longrightarrow>
            overallProgress p' = aggregate (stages p') \<and> wf_pipeline p'
            \<and> overallProgress p \<le> overallProgress p')
       \<and> (\<forall>p'. updateStageProgress_pl p n x = Some p' \<longrightarrow>
            overallProgress p' = aggregate (stages p') \<and> wf_pipeline p'
            \<and> (\<forall>st. find_stage n (stages p) = Some st \<and> progress_st st \<le> min 1 (max 0 x) \<longrightarrow>
                   overallProgress p \<le> overallProgress p'))
       \<and> (\<forall>p'. startStage_pl p n now = Some p' \<longrightarrow>
            overallProgress p' = aggregate (stages p') \<and> wf_pipeline p'
            \<and> (\<forall>st. find_stage n (stages p) = Some st \<and> contribution st = 0 \<longrightarrow>
                   overallProgress p \<le> overallProgress p'))
       \<and> (ps f = Some p \<longrightarrow>
            startStage ps w f n now =
              (case startStage_pl p n now of
                 None \<Rightarrow> (ps, w)
               | Some p' \<Rightarrow> (ps(f \<mapsto> p'), updateProgress w f (Num (overallProgress p')) n now))
            \<and> updateStageProgress ps w f n x now =
              (case updateStageProgress_pl p n x of
                 None \<Rightarrow> (ps, w)
               | Some p' \<Rightarrow> (ps(f \<mapsto> p'), updateProgress w f (Num (overallProgress p')) n now))
            \<and> completeStage ps w f n now =
              (case completeStage_pl p n now of
                 None \<Rightarrow> (ps, w)
               | Some p' \<Rightarrow> (ps(f \<mapsto> p'), updateProgress w f (Num (overallProgress p')) n now)))"
proof -
  have 1: "\<forall>p'. completeStage_pl p n now = Some p' \<longrightarrow>
            overallProgress p' = aggregate (stages p') \<and> wf_pipeline p'
            \<and> overallProgress p \<le> overallProgress p'"
  proof (intro allI impI)
    fix p' assume a: "completeStage_pl p n now = Some p'"
    show "overallProgress p' = aggregate (stages p') \<and> wf_pipeline p'
            \<and> overallProgress p \<le> overallProgress p'"
      using completeStage_monotone[OF assms a] completeStage_pl_result(2)[OF a] by simp
  qed
  have 2: "\<forall>p'. updateStageProgress_pl p n x = Some p' \<longrightarrow>
            overallProgress p' = aggregate (stages p') \<and> wf_pipeline p'
            \<and> (\<forall>st. find_stage n (stages p) = Some st \<and> progress_st st \<le> min 1 (max 0 x) \<longrightarrow>
                   overallProgress p \<le> overallProgress p')"
  proof (intro allI impI conjI)
    fix p' assume a: "updateStageProgress_pl p n x = Some p'"
    show "overallProgress p' = aggregate (stages p')"
      by (rule updateStageProgress_pl_result(2)[OF a])
    show "wf_pipeline p'"
      by (rule updateStageProgress_monotone(1)[OF assms a])
    fix st assume "find_stage n (stages p) = Some st \<and> progress_st st \<le> min 1 (max 0 x)"
    then show "overallProgress p \<le> overallProgress p'"
      using updateStageProgress_monotone(2)[OF assms a] by simp
  qed
  have 3: "\<forall>p'. startStage_pl p n now = Some p' \<longrightarrow>
            overallProgress p' = aggregate (stages p') \<and> wf_pipeline p'
            \<and> (\<forall>st. find_stage n (stages p) = Some st \<and> contribution st = 0 \<longrightarrow>
                   overallProgress p \<le> overallProgress p')"
  proof (intro allI impI conjI)
    fix p' assume a: "startStage_pl p n now = Some p'"
    show "overallProgress p' = aggregate (stages p')"
      by (rule startStage_pl_result(2)[OF a])
    show "wf_pipeline p'"
      by (rule startStage_monotone(1)[OF assms a])
    fix st assume "find_stage n (stages p) = Some st \<and> contribution st = 0"
    then show "overallProgress p \<le> overallProgress p'"
      using startStage_monotone(2)[OF assms a] by simp
  qed
  have 4: "ps f = Some p \<longrightarrow>
            startStage ps w f n now =
              (case startStage_pl p n now of
                 None \<Rightarrow> (ps, w)
               | Some p' \<Rightarrow> (ps(f \<mapsto> p'), updateProgress w f (Num (overallProgress p')) n now))
            \<and> updateStageProgress ps w f n x now =
              (case updateStageProgress_pl p n x of
                 None \<Rightarrow> (ps, w)
               | Some p' \<Rightarrow> (ps(f \<mapsto> p'), updateProgress w f (Num (overallProgress p')) n now))
            \<and> completeStage ps w f n now =
              (case completeStage_pl p n now of
                 None \<Rightarrow> (ps, w)
               | Some p' \<Rightarrow> (ps(f \<mapsto> p'), updateProgress w f (Num (overallProgress p')) n now))"
    by (intro impI conjI manager_emits)
  show ?thesis by (intro conjI 1 2 3 4)
qed

theorem progress_recomputed_witness:
  "wf_pipeline pipeline_started
   \<and> updateStageProgress_pl pipeline_started ''upload'' (1 / 2) = Some pipeline_half
   \<and> find_stage ''upload'' (stages pipeline_started)
       = Some ((mk_stage ''upload'' (1 / 10) ''File upload'')
                 \<lparr>status_st := running, startTime_st := Some 2, progress_st := 0\<rparr>)
   \<and> (0::real) \<le> min 1 (max 0 (1 / 2))
   \<and> overallProgress pipeline_started \<le> overallProgress pipeline_half
   \<and> wf_pipeline pipeline_half
   \<and> completeStage_pl pipeline_half ''upload'' 5 = Some pipeline_done
   \<and> overallProgress pipeline_half \<le> overallProgress pipeline_done
   \<and> wf_pipeline example_pipeline
   \<and> startStage_pl example_pipeline ''upload'' 2 = Some pipeline_started
   \<and> overallProgress example_pipeline \<le> overallProgress pipeline_started"
proof -
  have f0: "find_stage ''upload'' (stages example_pipeline) = Some (mk_stage ''upload'' (1 / 10) ''File upload'')"
    by (simp add: example_stages built_default find_stage_def) (simp add: mk_stage_def)
  have c0: "contribution (mk_stage ''upload'' (1 / 10) ''File upload'') = 0"
    by (simp add: contribution_def mk_stage_def)
  have f1: "find_stage ''upload'' (stages pipeline_started)
       = Some ((mk_stage ''upload'' (1 / 10) ''File upload'')
                 \<lparr>status_st := running, startTime_st := Some 2, progress_st := 0\<rparr>)"
    by (simp add: started_stages find_stage_def) (simp add: mk_stage_def)
  have g1: "progress_st ((mk_stage ''upload'' (1 / 10) ''File upload'')
                 \<lparr>status_st := running, startTime_st := Some 2, progress_st := 0\<rparr>)
              \<le> min 1 (max 0 (1 / 2))"
    by simp
  have a: "overallProgress example_pipeline \<le> overallProgress pipeline_started"
    using progress_recomputed[OF example_wf, where n = "''upload''" and now = 2] started_eq f0 c0
    by blast
  have b: "overallProgress pipeline_started \<le> overallProgress pipeline_half"
    using progress_recomputed[OF started_wf, where n = "''upload''" and x = "1 / 2"] half_eq f1 g1
    by blast
  have c: "overallProgress pipeline_half \<le> overallProgress pipeline_done"
    using progress_recomputed[OF half_wf, where n = "''upload''" and now = 5] done_eq
    by blast
  have d: "(0::real) \<le> min 1 (max 0 (1 / 2))" by simp
  show ?thesis
    by (intro conjI started_wf half_eq f1 d b half_wf done_eq c example_wf started_eq a)
qed

end
